theory Spec2Isabelle
  imports Complex_Main "HOL-Library.Multiset"
begin

section \<open>Shared representation: alleles, genotypes and populations\<close>

text \<open>
  A site identifier is an unsigned integer; \<open>0\<close> marks an empty entry. The genotype of an
  individual is one flat array holding \<open>ploidy\<close> haplotype copies one after the other,
  each copy holding the chromosome regions one after the other. A finite double is
  modelled by the real number it denotes; the results of the arithmetic on doubles are
  rounded as described in the section on doubles below.
\<close>

type_synonym allele = nat

text \<open>The exceptions the operators raise.\<close>

datatype error = ValueError | RuntimeError

record population =
  pop_numLoci :: "nat list"
  pop_ploidy :: nat
  pop_genos :: "allele list list"
  pop_gen :: nat
  pop_subPopSize :: "nat list"

definition totNumLoci :: "population \<Rightarrow> nat" where
  "totNumLoci pop = sum_list (pop_numLoci pop)"

definition popSize :: "population \<Rightarrow> nat" where
  "popSize pop = length (pop_genos pop)"

text \<open>
  Where the slot of copy \<open>p\<close> and chromosome \<open>ch\<close> starts in a genotype array whose
  chromosomes hold \<open>nl\<close> entries: \<open>genoBegin(p, ch)\<close>.
\<close>

definition slotBegin :: "nat list \<Rightarrow> nat \<Rightarrow> nat \<Rightarrow> nat" where
  "slotBegin nl p ch = p * sum_list nl + sum_list (take ch nl)"

text \<open>The entries \<open>[begin + off, begin + off + n)\<close> of a genotype array.\<close>

definition genoRange :: "allele list \<Rightarrow> nat \<Rightarrow> nat \<Rightarrow> allele list" where
  "genoRange g off n = take n (drop off g)"

text \<open>Overwriting the entries from \<open>begin + off\<close> on with \<open>xs\<close>.\<close>

definition genoWrite :: "allele list \<Rightarrow> nat \<Rightarrow> allele list \<Rightarrow> allele list" where
  "genoWrite g off xs = take off g @ xs @ drop (off + length xs) g"

text \<open>The slot \<open>genoBegin(p, ch) .. genoEnd(p, ch)\<close>.\<close>

definition genoSlot :: "nat list \<Rightarrow> allele list \<Rightarrow> nat \<Rightarrow> nat \<Rightarrow> allele list" where
  "genoSlot nl g p ch = genoRange g (slotBegin nl p ch) (nl ! ch)"

text \<open>Every individual owns \<open>ploidy * totNumLoci\<close> entries.\<close>

definition wf_pop :: "population \<Rightarrow> bool" where
  "wf_pop pop = list_all (\<lambda>g. length g = pop_ploidy pop * totNumLoci pop) (pop_genos pop)"

text \<open>A slot is packed left when no site follows an empty entry.\<close>

definition packed_left :: "allele list \<Rightarrow> bool" where
  "packed_left xs = list_all (\<lambda>x. x = 0) (dropWhile (\<lambda>x. x \<noteq> 0) xs)"

text \<open>
  Modelled from the spec: \<open>Population::addLoci\<close>, which is not part of these sources. It
  grows the capacity of region \<open>ch\<close> by \<open>n\<close> entries in every copy of every individual,
  keeps the existing entries, and leaves the new entries empty.
\<close>

definition addLoci :: "population \<Rightarrow> nat \<Rightarrow> nat \<Rightarrow> population" where
  "addLoci pop ch n =
     pop\<lparr>pop_numLoci := (pop_numLoci pop)[ch := pop_numLoci pop ! ch + n],
         pop_genos :=
           map (\<lambda>g. concat (map (\<lambda>p. concat (map (\<lambda>c. genoSlot (pop_numLoci pop) g p c
                                                          @ (if c = ch then replicate n 0 else []))
                                                    [0..<length (pop_numLoci pop)]))
                                [0..<pop_ploidy pop]))
               (pop_genos pop)\<rparr>"

section \<open>Doubles\<close>

text \<open>
  A finite double is the real number it denotes, and an operation on doubles returns the
  exact result rounded to the nearest double, ties to the even significand (IEEE 754
  binary64). \<open>round_even\<close> rounds a real to the nearest integer, ties to even.
\<close>

definition round_even :: "real \<Rightarrow> int" where
  "round_even y =
     (let f = \<lfloor>y\<rfloor>; d = y - of_int f
      in if d < 1 / 2 then f else if 1 / 2 < d then f + 1 else if even f then f else f + 1)"

text \<open>
  The exponent of a positive real: \<open>norm_exp n x 0\<close> is the \<open>e\<close> with
  \<open>2^e \<le> x < 2^(e+1)\<close>, found by halving or doubling at most \<open>n\<close> times.
\<close>

fun norm_exp :: "nat \<Rightarrow> real \<Rightarrow> int \<Rightarrow> int" where
  "norm_exp 0 x e = e"
| "norm_exp (Suc n) x e =
     (if x < 1 then norm_exp n (2 * x) (e - 1)
      else if 2 \<le> x then norm_exp n (x / 2) (e + 1)
      else e)"

text \<open>
  Rounding to a double: below \<open>2^-1022\<close> the doubles are the multiples of \<open>2^-1074\<close>,
  from there on the multiples of \<open>2^(e-52)\<close> for the exponent \<open>e\<close> of the value. Overflow
  to infinity and NaN are not represented.
\<close>

definition round_double :: "real \<Rightarrow> real" where
  "round_double x =
     (if \<bar>x\<bar> < 2 powi (- 1022) then of_int (round_even (x * 2 ^ 1074)) / 2 ^ 1074
      else let e = norm_exp 1100 \<bar>x\<bar> 0
           in of_int (round_even (x / 2 powi (e - 52))) * 2 powi (e - 52))"


section \<open>RevertFixedSites\<close>

text \<open>
  \<open>std::set<ULONG>\<close> is kept as its strictly increasing list of elements, which is what
  iterating it yields. \<open>set_intersection\<close> and \<open>set_difference\<close> are the merging
  algorithms of the standard library on such ranges.
\<close>

definition std_set :: "allele list \<Rightarrow> allele list" where
  "std_set xs = sort (remdups xs)"

definition set_erase :: "allele \<Rightarrow> allele list \<Rightarrow> allele list" where
  "set_erase x s = removeAll x s"

fun set_intersection :: "allele list \<Rightarrow> allele list \<Rightarrow> allele list" where
  "set_intersection (x # xs) (y # ys) =
     (if x < y then set_intersection xs (y # ys)
      else if y < x then set_intersection (x # xs) ys
      else x # set_intersection xs ys)"
| "set_intersection xs ys = []"

fun set_difference :: "allele list \<Rightarrow> allele list \<Rightarrow> allele list" where
  "set_difference [] ys = []"
| "set_difference xs [] = xs"
| "set_difference (x # xs) (y # ys) =
     (if x < y then x # set_difference xs (y # ys)
      else if y < x then set_difference (x # xs) ys
      else set_difference xs ys)"

text \<open>
  The first loop of \<open>apply\<close>: intersect the running set with both copies of every
  individual; the empty list stands for the early \<open>return true\<close>.
\<close>

fun common_loop :: "nat \<Rightarrow> allele list list \<Rightarrow> allele list \<Rightarrow> allele list" where
  "common_loop tot [] commonAlleles = commonAlleles"
| "common_loop tot (g # gs) commonAlleles =
     (let alleles1 = std_set (genoRange g 0 tot);
          common = set_intersection commonAlleles alleles1;
          alleles2 = std_set (genoRange g tot tot);
          commonAlleles' = set_intersection common alleles2
      in if length commonAlleles' = 0 then [] else common_loop tot gs commonAlleles')"

text \<open>The set of fixed sites the operator computes, for a non-empty population.\<close>

definition fixed_sites :: "population \<Rightarrow> allele list" where
  "fixed_sites pop =
     (let tot = totNumLoci pop;
          commonAlleles = set_erase 0 (std_set (genoRange (hd (pop_genos pop)) 0 tot))
      in if length commonAlleles = 0 then [] else common_loop tot (pop_genos pop) commonAlleles)"

text \<open>
  The second loop, for one copy \<open>p\<close> of one individual: the buffer \<open>new_alleles\<close> of
  \<open>tot\<close> zeros receives the difference at its front and is copied over the copy.
\<close>

definition revert_copy :: "nat \<Rightarrow> allele list \<Rightarrow> allele list \<Rightarrow> nat \<Rightarrow> allele list" where
  "revert_copy tot commonAlleles g p =
     (let old_alleles = set_erase 0 (std_set (genoRange g (p * tot) tot));
          kept = set_difference old_alleles commonAlleles;
          new_alleles = kept @ replicate (tot - length kept) 0
      in genoWrite g (p * tot) new_alleles)"

definition revert_ind :: "nat \<Rightarrow> allele list \<Rightarrow> allele list \<Rightarrow> allele list" where
  "revert_ind tot commonAlleles g = revert_copy tot commonAlleles (revert_copy tot commonAlleles g 0) 1"

text \<open>
  \<open>RevertFixedSites::apply\<close>. The output stream is a list of lines, each the generation
  followed by the fixed sites; \<open>noOutput\<close> tells whether the operator has no stream.
\<close>

definition RevertFixedSites_apply ::
  "bool \<Rightarrow> population \<Rightarrow> (nat \<times> allele list) list \<Rightarrow> bool \<times> population \<times> (nat \<times> allele list) list" where
  "RevertFixedSites_apply noOutput pop out =
     (if popSize pop = 0 \<or> totNumLoci pop = 0 then (True, pop, out)
      else
        let commonAlleles = fixed_sites pop in
        if length commonAlleles = 0 then (True, pop, out)
        else
          let out' = (if \<not> noOutput then out @ [(pop_gen pop, commonAlleles)] else out);
              genos' = map (revert_ind (totNumLoci pop) commonAlleles) (pop_genos pop)
          in (True, pop\<lparr>pop_genos := genos'\<rparr>, out'))"

text \<open>Two diploid populations of two individuals with one region of three entries.\<close>

definition trim_pop :: population where
  "trim_pop = \<lparr>pop_numLoci = [3], pop_ploidy = 2,
      pop_genos = [[5, 2, 0, 2, 5, 0], [2, 7, 5, 5, 2, 0]], pop_gen = 1, pop_subPopSize = [2]\<rparr>"

definition nofix_pop :: population where
  "nofix_pop = \<lparr>pop_numLoci = [3], pop_ploidy = 2,
      pop_genos = [[5, 0, 0, 2, 0, 0], [2, 7, 5, 5, 2, 0]], pop_gen = 1, pop_subPopSize = [2]\<rparr>"


section \<open>InfSitesSelector\<close>

type_synonym SelCoef = "real \<times> real"

text \<open>
  What a call of the user's Python function returns: a number, a sequence of numbers, or
  anything else. The function may answer differently at each call, so it receives the
  number of calls and draws made so far; with no parameter it is called as \<open>func()\<close>,
  otherwise as \<open>func(mutant)\<close>.
\<close>

datatype PyObject = PyNumber real | PySequence "real list" | PyOther

record pyFunc =
  func_numArgs :: nat
  func_arg0 :: string
  func_call :: "nat \<Rightarrow> nat option \<Rightarrow> PyObject"

datatype SelMode = MULTIPLICATIVE | ADDITIVE | EXPONENTIAL | OtherMode

text \<open>
  The members of the selector that no member function changes, with the services it
  consumes: \<open>sel_CONSTANT\<close> is the value of the enumerator \<open>CONSTANT\<close> and
  \<open>sel_randGamma n a b\<close> is what \<open>getRNG().randGamma(a, b)\<close> returns as the draw
  number \<open>n\<close>. \<open>m_selDist\<close> holds a list of doubles, empty when a function is given.
  \<open>sel_round\<close> is the rounding of the result of every operation on doubles:
  \<open>round_double\<close> for the doubles of the source, the identity for exact arithmetic.
  Every operation is rounded on its own (no fused multiply-add), and the library function
  \<open>exp\<close> is taken to return the rounded exponential.
\<close>

record selector_env =
  m_selDist :: "real list"
  m_selDist_func :: pyFunc
  m_mode :: SelMode
  sel_CONSTANT :: int
  sel_randGamma :: "nat \<Rightarrow> real \<Rightarrow> real \<Rightarrow> real"
  sel_round :: "real \<Rightarrow> real"

text \<open>The mutable members, and the number of draws and calls made so far.\<close>

record selector =
  m_selFactory :: "nat \<rightharpoonup> SelCoef"
  m_newMutants :: "nat list"
  m_additive :: bool
  sel_draws :: nat

text \<open>\<open>static_cast<int>\<close> of a double rounds towards zero.\<close>

definition double_to_int :: "real \<Rightarrow> int" where
  "double_to_int x = (if 0 \<le> x then \<lfloor>x\<rfloor> else \<lceil>x\<rceil>)"

text \<open>The common tail of both branches: lower the flag when \<open>h\<close> is not one half.\<close>

definition lower_additive :: "real \<Rightarrow> selector \<Rightarrow> selector" where
  "lower_additive h st = (if m_additive st \<and> h \<noteq> 0.5 then st\<lparr>m_additive := False\<rparr> else st)"

text \<open>
  \<open>InfSitesSelector::getFitnessValue\<close>. The function branch returns at its own
  \<open>return SelCoef(s, h)\<close>; only the distribution branch reaches the assignment to
  \<open>m_selFactory[mutant]\<close> and the \<open>push_back\<close>. A distribution list is read at the
  indices the source reads; the operator's constructor is trusted to have checked its size.
\<close>

definition getFitnessValue :: "selector_env \<Rightarrow> selector \<Rightarrow> nat \<Rightarrow> error + (SelCoef \<times> selector)" where
  "getFitnessValue env st mutant =
     (let sz = length (m_selDist env) in
      if sz = 0 then
        (let func = m_selDist_func env in
         if func_numArgs func \<noteq> 0 \<and> func_arg0 func \<noteq> ''loc'' then Inl ValueError
         else
           let res = (if func_numArgs func = 0 then func_call func (sel_draws st) None
                      else func_call func (sel_draws st) (Some mutant));
               st1 = st\<lparr>sel_draws := sel_draws st + 1\<rparr>
           in case res of
                PyNumber x \<Rightarrow> Inr ((x, 0.5), lower_additive 0.5 st1)
              | PySequence xs \<Rightarrow>
                  if length xs = 0 then Inl RuntimeError
                  else
                    let s = xs ! 0;
                        h = (if length xs > 1 then xs ! 1 else 0.5)
                    in Inr ((s, h), lower_additive h st1)
              | PyOther \<Rightarrow> Inr ((0, 0.5), lower_additive 0.5 st1))
      else
        let mode = double_to_int (m_selDist env ! 0);
            (s, h, st1) =
              (if mode = sel_CONSTANT env then
                 (m_selDist env ! 1, (if sz > 2 then m_selDist env ! 2 else 0.5), st)
               else
                 (sel_randGamma env (sel_draws st) (m_selDist env ! 1) (m_selDist env ! 2),
                  (if sz > 3 then m_selDist env ! 3 else 0.5),
                  st\<lparr>sel_draws := sel_draws st + 1\<rparr>));
            st2 = st1\<lparr>m_selFactory := (m_selFactory st1)(mutant \<mapsto> (s, h)),
                      m_newMutants := m_newMutants st1 @ [mutant]\<rparr>
        in Inr ((s, h), lower_additive h st2))"




text \<open>
  \<open>MutCounter\<close> is an ordered map from site to count, kept as its list of pairs in
  increasing key order. \<open>cnt_add\<close> is the find-then-insert-or-increment of the
  counting loops.
\<close>

type_synonym MutCounter = "(nat \<times> nat) list"

fun cnt_add :: "nat \<Rightarrow> MutCounter \<Rightarrow> MutCounter" where
  "cnt_add a [] = [(a, 1)]"
| "cnt_add a ((k, c) # m) =
     (if a < k then (a, 1) # (k, c) # m
      else if a = k then (k, c + 1) # m
      else (k, c) # cnt_add a m)"













text \<open>
  The conditions on a coefficient pair under which every term of a fitness sum or product
  stays in range: \<open>add_coef\<close> asks for \<open>0 \<le> s\<close> and \<open>0 \<le> s * h\<close>, \<open>mul_coef\<close> also for
  \<open>s \<le> 1\<close> and \<open>s * h \<le> 1\<close>. \<open>coefs_ok P env st\<close> says that every pair in the cache and every
  pair a resolution can return satisfies \<open>P\<close>.
\<close>

definition add_coef :: "SelCoef \<Rightarrow> bool" where
  "add_coef sc = (0 \<le> fst sc \<and> 0 \<le> fst sc * snd sc)"

definition mul_coef :: "SelCoef \<Rightarrow> bool" where
  "mul_coef sc = (add_coef sc \<and> fst sc \<le> 1 \<and> fst sc * snd sc \<le> 1)"




text \<open>
  Evaluators used as examples: one configured with the constant distribution
  \<open>(0.1, 0.3)\<close>, one with a user function of the parameter \<open>loc\<close> whose answer
  changes with every call, both computing in doubles, and one computing in exact
  arithmetic; and states of the cache.
\<close>

definition no_func :: pyFunc where
  "no_func = \<lparr>func_numArgs = 0, func_arg0 = '''', func_call = (\<lambda>n a. PyOther)\<rparr>"

definition const_env :: selector_env where
  "const_env = \<lparr>m_selDist = [11, 0.1, 0.3], m_selDist_func = no_func, m_mode = ADDITIVE,
      sel_CONSTANT = 11, sel_randGamma = (\<lambda>n a b. 0), sel_round = round_double\<rparr>"


definition loc_func :: pyFunc where
  "loc_func = \<lparr>func_numArgs = 1, func_arg0 = ''loc'',
      func_call = (\<lambda>n a. PySequence [real n / 10, 0.5])\<rparr>"

definition func_env :: selector_env where
  "func_env = \<lparr>m_selDist = [], m_selDist_func = loc_func, m_mode = ADDITIVE,
      sel_CONSTANT = 11, sel_randGamma = (\<lambda>n a b. 0), sel_round = round_double\<rparr>"

definition empty_sel :: selector where
  "empty_sel = \<lparr>m_selFactory = Map.empty, m_newMutants = [], m_additive = True, sel_draws = 0\<rparr>"











section \<open>InfSitesMutator\<close>

text \<open>
  The members of the mutator that \<open>apply\<close> does not change, the services it consumes,
  and what the sources leave open:
  \<^item> \<open>m_ranges\<close> holds the pair \<open>(ranges[i][0], ranges[i][1])\<close> of every region;
  \<^item> \<open>mut_subPops\<close> is the list \<open>applicableSubPops(pop)\<close>, each entry a subpopulation
    index with its \<open>isVirtual()\<close>;
  \<^item> \<open>ModuleMaxAllele\<close> and \<open>ToAllele\<close> are declared outside these sources;
  \<^item> \<open>randGeometric n r\<close> and \<open>randInt n k\<close> are what the generator returns as draw
    number \<open>n\<close>;
  \<^item> \<open>retry_scan\<close> is what the second pair of scans of \<open>locateVacantLocus\<close> returns
    (a location, or 0), given the rebuilt registry, \<open>loc\<close>, \<open>beg\<close> and \<open>end\<close>: they run
    through copies of an iterator that \<open>m_mutants.clear()\<close> has invalidated, so the
    sources do not determine their result.
\<close>

record mutator_env =
  m_ranges :: "(nat \<times> nat) list"
  m_rate :: real
  m_model :: nat
  mut_noOutput :: bool
  mut_subPops :: "(nat \<times> bool) list"
  ModuleMaxAllele :: nat
  ToAllele :: "nat \<Rightarrow> allele"
  randGeometric :: "nat \<Rightarrow> real \<Rightarrow> nat"
  randInt :: "nat \<Rightarrow> nat \<Rightarrow> nat"
  retry_scan :: "nat list \<Rightarrow> nat \<Rightarrow> nat \<Rightarrow> nat \<Rightarrow> nat"

text \<open>
  What a call of \<open>apply\<close> changes: the population, the registry \<open>m_mutants\<close> (a
  \<open>std::set\<close>, kept as its increasing list), the local \<open>saturated\<close>, the lines written
  (generation, location, individual, event code) and the number of draws made.
\<close>

record mutator =
  mut_pop :: population
  m_mutants :: "nat list"
  saturated :: bool
  mut_out :: "(nat \<times> nat \<times> nat \<times> nat) list"
  mut_draws :: nat

text \<open>A line is written only when the operator has an output stream.\<close>

definition mut_log :: "mutator_env \<Rightarrow> nat \<times> nat \<times> nat \<times> nat \<Rightarrow> mutator \<Rightarrow> mutator" where
  "mut_log env line st = (if mut_noOutput env then st else st\<lparr>mut_out := mut_out st @ [line]\<rparr>)"

text \<open>\<open>m_mutants.insert\<close> and the position \<open>std::find\<close> returns (the length for \<open>end()\<close>).\<close>

definition set_insert :: "nat \<Rightarrow> nat list \<Rightarrow> nat list" where
  "set_insert x s = (if x \<in> set s then s else insort x s)"

fun find_pos :: "nat list \<Rightarrow> nat \<Rightarrow> nat" where
  "find_pos [] x = 0"
| "find_pos (y # ys) x = (if y = x then 0 else Suc (find_pos ys x))"

text \<open>All alleles of the population: \<open>pop.genoBegin(false) .. pop.genoEnd(false)\<close>.\<close>

definition pop_alleles :: "population \<Rightarrow> allele list" where
  "pop_alleles pop = concat (pop_genos pop)"

text \<open>The rebuilding loop of \<open>locateVacantLocus\<close>.\<close>

definition rebuild_mutants :: "population \<Rightarrow> nat list" where
  "rebuild_mutants pop = fold (\<lambda>a s. if a = 0 then s else set_insert a s) (pop_alleles pop) []"

text \<open>
  The forward scan: \<open>i\<close> is the position of \<open>it1\<close> in the registry. The backward scan:
  \<open>b\<close> is the position of the base of the reverse iterator \<open>it2\<close>, which points at the
  entry \<open>b - 1\<close>, equals \<open>rend()\<close> when \<open>b = 0\<close>, and is moved by \<open>--it2\<close> to \<open>b + 1\<close>.
  \<open>ULONG\<close> has 64 bits, so \<open>loc - 1\<close> wraps at zero.
\<close>

function forward_scan :: "nat list \<Rightarrow> nat \<Rightarrow> nat \<Rightarrow> nat \<Rightarrow> nat option" where
  "forward_scan xs i loc1 e =
     (if i < length xs \<and> loc1 \<noteq> e
      then (if xs ! i \<noteq> loc1 then Some loc1 else forward_scan xs (i + 1) (loc1 + 1) e)
      else None)"
  by pat_completeness auto
termination
  by (relation "measure (\<lambda>(xs, i, loc1, e). length xs - i)") auto

definition ulong_dec :: "nat \<Rightarrow> nat" where
  "ulong_dec x = (if x = 0 then 2 ^ 64 - 1 else x - 1)"

function backward_scan :: "nat list \<Rightarrow> nat \<Rightarrow> nat \<Rightarrow> nat \<Rightarrow> nat option" where
  "backward_scan xs b loc2 beg =
     (if b \<noteq> 0 \<and> b \<le> length xs \<and> loc2 \<noteq> beg
      then (if xs ! (b - 1) \<noteq> loc2 then Some loc2
            else backward_scan xs (b + 1) (ulong_dec loc2) beg)
      else None)"
  by pat_completeness auto
termination
  by (relation "measure (\<lambda>(xs, b, loc2, beg). length xs + 1 - b)") auto

text \<open>
  \<open>InfSitesMutator::locateVacantLocus\<close>: the location found (0 for none) and the state
  after the draw and, when both scans fail, after the rebuilding of the registry.
\<close>

definition locateVacantLocus :: "mutator_env \<Rightarrow> nat \<Rightarrow> nat \<Rightarrow> mutator \<Rightarrow> nat \<times> mutator" where
  "locateVacantLocus env beg end st =
     (let loc = randInt env (mut_draws st) (end - beg) + beg;
          st1 = st\<lparr>mut_draws := mut_draws st + 1\<rparr>;
          it = find_pos (m_mutants st) loc
      in if it = length (m_mutants st) then (loc, st1)
         else
           case forward_scan (m_mutants st) (it + 1) (loc + 1) end of
             Some loc1 \<Rightarrow> (loc1, st1)
           | None \<Rightarrow>
               (case backward_scan (m_mutants st) (it + 1) (ulong_dec loc) beg of
                  Some loc2 \<Rightarrow> (loc2, st1)
                | None \<Rightarrow>
                    let rebuilt = rebuild_mutants (mut_pop st)
                    in (retry_scan env rebuilt loc beg end, st1\<lparr>m_mutants := rebuilt\<rparr>)))"

text \<open>
  The inner loop of a back mutation at position \<open>j\<close>: the first empty entry \<open>k\<close> after
  \<open>j\<close> ends it, the entry before \<open>k\<close> is moved to \<open>j\<close> and emptied.
\<close>

function back_scan :: "allele list \<Rightarrow> nat \<Rightarrow> nat \<Rightarrow> allele list option" where
  "back_scan geno j k =
     (if k < length geno
      then (if geno ! k = 0 then Some ((geno[j := geno ! (k - 1)])[k - 1 := 0])
            else back_scan geno j (k + 1))
      else None)"
  by pat_completeness auto
termination
  by (relation "measure (\<lambda>(geno, j, k). length geno - k)") auto

text \<open>
  The loop over the \<open>nLoci\<close> entries of the slot, from position \<open>j\<close>: the slot after the
  loop and the event written (0 new, 1 back mutation), or the failure of
  \<open>DBG_FAILIF(mutLoc >= ModuleMaxAllele, RuntimeError, ...)\<close>.
\<close>

function place_scan :: "mutator_env \<Rightarrow> nat \<Rightarrow> allele list \<Rightarrow> nat \<Rightarrow> error + (allele list \<times> nat option)" where
  "place_scan env mutLoc geno j =
     (if j < length geno
      then (if geno ! j = 0
            then (if mutLoc \<ge> ModuleMaxAllele env then Inl RuntimeError
                  else Inr (geno[j := ToAllele env mutLoc], Some 0))
            else if geno ! j = mutLoc
            then (case back_scan geno j (j + 1) of
                    Some geno' \<Rightarrow> Inr (geno', Some 1)
                  | None \<Rightarrow> Inr (geno, None))
            else place_scan env mutLoc geno (j + 1))
      else Inr (geno, None))"
  by pat_completeness auto
termination
  by (relation "measure (\<lambda>(env, mutLoc, geno, j). length geno - j)") auto

text \<open>
  The second half of the loop body: the slot of individual \<open>indIndex\<close>, copy \<open>p\<close>, region
  \<open>ch\<close> grows by 10 entries when its last entry is taken, and receives \<open>mutLoc\<close>.
\<close>

definition place_mutation :: "mutator_env \<Rightarrow> nat \<Rightarrow> nat \<Rightarrow> nat \<Rightarrow> nat \<Rightarrow> mutator \<Rightarrow> error + mutator" where
  "place_mutation env indIndex p ch mutLoc st =
     (let pop = mut_pop st;
          geno = genoSlot (pop_numLoci pop) (pop_genos pop ! indIndex) p ch;
          nLoci = pop_numLoci pop ! ch;
          pop1 = (if geno ! (nLoci - 1) \<noteq> 0 then addLoci pop ch 10 else pop);
          geno1 = genoSlot (pop_numLoci pop1) (pop_genos pop1 ! indIndex) p ch
      in case place_scan env mutLoc geno1 0 of
           Inl e \<Rightarrow> Inl e
         | Inr (geno2, event) \<Rightarrow>
             let g' = genoWrite (pop_genos pop1 ! indIndex) (slotBegin (pop_numLoci pop1) p ch) geno2;
                 st1 = st\<lparr>mut_pop := pop1\<lparr>pop_genos := (pop_genos pop1)[indIndex := g']\<rparr>\<rparr>
             in Inr (case event of
                       None \<Rightarrow> st1
                     | Some code \<Rightarrow> mut_log env (pop_gen pop, mutLoc, indIndex, code) st1))"

text \<open>
  The loop body from \<open>if (m_model == 2)\<close> on, for the mutation mapped to copy \<open>p\<close>,
  region \<open>ch\<close> and location \<open>mutLoc\<close>.
\<close>

definition mutate_at :: "mutator_env \<Rightarrow> nat \<Rightarrow> nat \<Rightarrow> nat \<Rightarrow> nat \<Rightarrow> mutator \<Rightarrow> error + mutator" where
  "mutate_at env indIndex p ch mutLoc st =
     (if m_model env = 2 then
        if saturated st then Inr (mut_log env (pop_gen (mut_pop st), mutLoc, indIndex, 3) st)
        else if mutLoc \<in> set (m_mutants st)
                \<and> ToAllele env mutLoc \<in> set (pop_alleles (mut_pop st))
        then
          (let (newLoc, st1) = locateVacantLocus env (fst (m_ranges env ! ch)) (snd (m_ranges env ! ch)) st;
               st2 = mut_log env (pop_gen (mut_pop st), mutLoc, indIndex, (if newLoc = 0 then 3 else 2)) st1
           in if newLoc \<noteq> 0
              then place_mutation env indIndex p ch newLoc
                     (st2\<lparr>m_mutants := set_insert newLoc (m_mutants st2)\<rparr>)
              else Inr (st2\<lparr>saturated := True\<rparr>))
        else place_mutation env indIndex p ch mutLoc
               (st\<lparr>m_mutants := set_insert mutLoc (m_mutants st)\<rparr>)
      else place_mutation env indIndex p ch mutLoc st)"








declare place_scan.simps [simp del] back_scan.simps [simp del]
  forward_scan.simps [simp del] backward_scan.simps [simp del]


text \<open>
  A mutator in infinite-site mode on the single region \<open>[10, 12)\<close>, whose geometric
  draws are all 2 and whose search for a vacant location fails; a population whose only
  individual carries site 11.
\<close>

definition sat_env :: mutator_env where
  "sat_env = \<lparr>m_ranges = [(10, 12)], m_rate = 0.5, m_model = 2, mut_noOutput = False,
      mut_subPops = [(0, False)], ModuleMaxAllele = 1000, ToAllele = (\<lambda>x. x),
      randGeometric = (\<lambda>n r. 2), randInt = (\<lambda>n k. 1), retry_scan = (\<lambda>xs loc b e. 0)\<rparr>"

definition sat_pop :: population where
  "sat_pop = \<lparr>pop_numLoci = [2], pop_ploidy = 2, pop_genos = [[11, 0, 0, 0]], pop_gen = 7,
      pop_subPopSize = [1]\<rparr>"

definition sat_st :: "bool \<Rightarrow> (nat \<times> nat \<times> nat \<times> nat) list \<Rightarrow> nat \<Rightarrow> mutator" where
  "sat_st s out d = \<lparr>mut_pop = sat_pop, m_mutants = [11], saturated = s, mut_out = out, mut_draws = d\<rparr>"

text \<open>
  States whose registry still holds site 11 while no genotype does: a population of two
  individuals carrying other sites, and a population whose individual has a full slot.
  The last mutator finds the vacant location 13 in the region \<open>[10, 20)\<close>.
\<close>

definition mixed_pop :: population where
  "mixed_pop = \<lparr>pop_numLoci = [2], pop_ploidy = 2, pop_genos = [[4, 0, 7, 0], [9, 0, 0, 0]],
      pop_gen = 7, pop_subPopSize = [2]\<rparr>"

definition mixed_st :: mutator where
  "mixed_st = \<lparr>mut_pop = mixed_pop, m_mutants = [4, 7, 9, 11], saturated = False, mut_out = [],
      mut_draws = 1\<rparr>"

definition full_pop :: population where
  "full_pop = \<lparr>pop_numLoci = [2], pop_ploidy = 2, pop_genos = [[4, 5, 7, 0]],
      pop_gen = 7, pop_subPopSize = [1]\<rparr>"

definition full_st :: mutator where
  "full_st = \<lparr>mut_pop = full_pop, m_mutants = [4, 5, 7, 11], saturated = False, mut_out = [],
      mut_draws = 1\<rparr>"

definition reloc_env :: mutator_env where
  "reloc_env = \<lparr>m_ranges = [(10, 20)], m_rate = 0.5, m_model = 2, mut_noOutput = False,
      mut_subPops = [(0, False)], ModuleMaxAllele = 1000, ToAllele = (\<lambda>x. x),
      randGeometric = (\<lambda>n r. 2), randInt = (\<lambda>n k. 3), retry_scan = (\<lambda>xs loc b e. 0)\<rparr>"


section \<open>InfSitesRecombinator\<close>

text \<open>
  The counting loops of \<open>transmitGenotype0\<close> stop at the first empty entry of the range
  they run over (\<open>if (*it == 0) break\<close>).
\<close>

fun count_break :: "allele list \<Rightarrow> MutCounter \<Rightarrow> MutCounter" where
  "count_break [] cnt = cnt"
| "count_break (a # as) cnt = (if a = 0 then cnt else count_break as (cnt_add a cnt))"

text \<open>
  The loop that keeps a site counted twice, and a site counted otherwise when the coin
  \<open>randBit\<close> falls so; the coin is only flipped for the latter. \<open>n\<close> counts the flips.
\<close>

fun keep_loop :: "(nat \<Rightarrow> bool) \<Rightarrow> MutCounter \<Rightarrow> nat \<Rightarrow> nat list \<Rightarrow> nat list \<times> nat" where
  "keep_loop randBit [] n alleles = (alleles, n)"
| "keep_loop randBit ((site, c) # cnt) n alleles =
     (if c = 2 then keep_loop randBit cnt n (alleles @ [site])
      else if randBit n then keep_loop randBit cnt (n + 1) (alleles @ [site])
      else keep_loop randBit cnt (n + 1) alleles)"

text \<open>
  The body of the loop over the chromosomes, for chromosome \<open>ch\<close>. The parent is given by
  the sizes \<open>parentLoci\<close> of its chromosomes and its genotype array; with one chromosome
  the count runs over the whole array \<open>parent.genoBegin() .. parent.genoEnd()\<close>, otherwise
  over the slot of copy 0 and then the slot of copy 1. The sites kept are values read from
  the parent, which \<open>ToAllele\<close> leaves as they are. When the sites kept do not fit, the
  source grows the offspring population and then writes through iterators it took before
  the growth; the model has no value for that case (\<open>None\<close>).
\<close>

definition transmit0_chrom ::
  "(nat \<Rightarrow> bool) \<Rightarrow> nat list \<Rightarrow> allele list \<Rightarrow> nat \<Rightarrow> nat \<Rightarrow> nat
     \<Rightarrow> population \<times> nat \<Rightarrow> (population \<times> nat) option" where
  "transmit0_chrom randBit parentLoci parent offIndex ploidy ch s =
     (let offPop = fst s;
          n = snd s;
          nCh = length parentLoci;
          cnt = (if nCh = 1 then count_break parent []
                 else count_break (genoSlot parentLoci parent 1 ch)
                        (count_break (genoSlot parentLoci parent 0 ch) []));
          off = pop_genos offPop ! offIndex;
          it = slotBegin (pop_numLoci offPop) ploidy ch;
          len = pop_numLoci offPop ! ch
      in if cnt = []
         then Some (offPop\<lparr>pop_genos := (pop_genos offPop)
                      [offIndex := genoWrite off it (replicate len 0)]\<rparr>, n)
         else
           let kept = keep_loop randBit cnt n [];
               alleles = fst kept
           in if length alleles + 1 > pop_numLoci offPop ! ch then None
              else Some (offPop\<lparr>pop_genos := (pop_genos offPop)
                           [offIndex := genoWrite off it
                              (alleles @ replicate (len - length alleles) 0)]\<rparr>, snd kept))"

fun transmit0_loop ::
  "(nat \<Rightarrow> bool) \<Rightarrow> nat list \<Rightarrow> allele list \<Rightarrow> nat \<Rightarrow> nat \<Rightarrow> nat list
     \<Rightarrow> population \<times> nat \<Rightarrow> (population \<times> nat) option" where
  "transmit0_loop randBit parentLoci parent offIndex ploidy [] s = Some s"
| "transmit0_loop randBit parentLoci parent offIndex ploidy (ch # chs) s =
     (case transmit0_chrom randBit parentLoci parent offIndex ploidy ch s of
        None \<Rightarrow> None
      | Some s' \<Rightarrow> transmit0_loop randBit parentLoci parent offIndex ploidy chs s')"

text \<open>
  \<open>InfSitesRecombinator::transmitGenotype0\<close>, built without \<open>BINARYALLELE\<close>: the offspring
  population and the number of coin flips after the call.
\<close>

definition transmitGenotype0 ::
  "(nat \<Rightarrow> bool) \<Rightarrow> nat list \<Rightarrow> allele list \<Rightarrow> population \<Rightarrow> nat \<Rightarrow> nat \<Rightarrow> nat
     \<Rightarrow> (population \<times> nat) option" where
  "transmitGenotype0 randBit parentLoci parent offPop offIndex ploidy n =
     transmit0_loop randBit parentLoci parent offIndex ploidy [0..<length parentLoci] (offPop, n)"

text \<open>
  Offspring populations of one individual, with one chromosome of two entries and with two
  chromosomes of two and one entries.
\<close>

definition off_pop1 :: population where
  "off_pop1 = \<lparr>pop_numLoci = [2], pop_ploidy = 2, pop_genos = [[8, 8, 8, 8]], pop_gen = 1,
      pop_subPopSize = [1]\<rparr>"

definition off_pop2 :: population where
  "off_pop2 = \<lparr>pop_numLoci = [2, 1], pop_ploidy = 2, pop_genos = [[8, 8, 8, 8, 8, 8]], pop_gen = 1,
      pop_subPopSize = [1]\<rparr>"


section \<open>Properties of rounding to a double\<close>

























section \<open>Properties of RevertFixedSites\<close>

lemma std_set_set [simp]: "set (std_set xs) = set xs"
  by (simp add: std_set_def)

lemma std_set_strict: "sorted_wrt (<) (std_set xs)"
  by (simp add: std_set_def strict_sorted_iff)

lemma set_erase_set [simp]: "set (set_erase x s) = set s - {x}"
  by (auto simp: set_erase_def)

lemma set_erase_strict: "sorted_wrt (<) s \<Longrightarrow> sorted_wrt (<) (set_erase x s)"
  by (simp add: set_erase_def removeAll_filter_not_eq sorted_wrt_filter)

lemma set_intersection_set:
  "sorted_wrt (<) xs \<Longrightarrow> sorted_wrt (<) ys \<Longrightarrow> set (set_intersection xs ys) = set xs \<inter> set ys"
proof (induction xs ys rule: set_intersection.induct)
  case (1 x xs y ys)
  have xs: "\<forall>z\<in>set xs. x < z" and ys: "\<forall>z\<in>set ys. y < z"
    and sx: "sorted_wrt (<) xs" and sy: "sorted_wrt (<) ys"
    using 1(4,5) by simp_all
  show ?case
  proof (cases "x < y")
    case True
    then have "set (set_intersection (x # xs) (y # ys)) = set xs \<inter> set (y # ys)"
      using 1(1)[OF True sx 1(5)] by simp
    moreover have "x \<notin> set (y # ys)" using True ys by auto
    ultimately show ?thesis by auto
  next
    case False
    show ?thesis
    proof (cases "y < x")
      case True
      then have "set (set_intersection (x # xs) (y # ys)) = set (x # xs) \<inter> set ys"
        using 1(2)[OF False True 1(4) sy] False by simp
      moreover have "y \<notin> set (x # xs)" using True xs by auto
      ultimately show ?thesis by auto
    next
      case F2: False
      with False have e: "x = y" by simp
      have "set (set_intersection (x # xs) (y # ys)) = insert x (set xs \<inter> set ys)"
        using 1(3)[OF False F2 sx sy] False F2 by simp
      moreover have "x \<notin> set ys" "y \<notin> set xs" using e xs ys by auto
      ultimately show ?thesis using e by auto
    qed
  qed
qed simp_all

lemma set_intersection_subset: "set (set_intersection xs ys) \<subseteq> set xs"
  by (induction xs ys rule: set_intersection.induct) auto

lemma set_intersection_strict:
  "sorted_wrt (<) xs \<Longrightarrow> sorted_wrt (<) (set_intersection xs ys)"
proof (induction xs ys rule: set_intersection.induct)
  case (1 x xs y ys)
  have "\<forall>z\<in>set (set_intersection xs ys). x < z"
    using 1(4) set_intersection_subset[of xs ys] by auto
  with 1 show ?case by auto
qed simp_all

lemma set_difference_set:
  "sorted_wrt (<) xs \<Longrightarrow> sorted_wrt (<) ys \<Longrightarrow> set (set_difference xs ys) = set xs - set ys"
proof (induction xs ys rule: set_difference.induct)
  case (3 x xs y ys)
  have xs: "\<forall>z\<in>set xs. x < z" and ys: "\<forall>z\<in>set ys. y < z"
    and sx: "sorted_wrt (<) xs" and sy: "sorted_wrt (<) ys"
    using 3(4,5) by simp_all
  show ?case
  proof (cases "x < y")
    case True
    then have "set (set_difference (x # xs) (y # ys)) = insert x (set xs - set (y # ys))"
      using 3(1)[OF True sx 3(5)] by simp
    moreover have "x \<notin> set (y # ys)" using True ys by auto
    ultimately show ?thesis by auto
  next
    case False
    show ?thesis
    proof (cases "y < x")
      case True
      then have "set (set_difference (x # xs) (y # ys)) = set (x # xs) - set ys"
        using 3(2)[OF False True 3(4) sy] False by simp
      moreover have "y \<notin> set (x # xs)" using True xs by auto
      ultimately show ?thesis by auto
    next
      case F2: False
      with False have e: "x = y" by simp
      have "set (set_difference (x # xs) (y # ys)) = set xs - set ys"
        using 3(3)[OF False F2 sx sy] False F2 by simp
      moreover have "x \<notin> set ys" "y \<notin> set xs" using e xs ys by auto
      ultimately show ?thesis using e by auto
    qed
  qed
qed simp_all

lemma set_difference_subset: "set (set_difference xs ys) \<subseteq> set xs"
  by (induction xs ys rule: set_difference.induct) auto

lemma set_difference_strict:
  "sorted_wrt (<) xs \<Longrightarrow> sorted_wrt (<) (set_difference xs ys)"
proof (induction xs ys rule: set_difference.induct)
  case (3 x xs y ys)
  have "\<forall>z\<in>set (set_difference xs (y # ys)). x < z"
    using 3(4) set_difference_subset[of xs "y # ys"] by auto
  with 3 show ?case by auto
qed simp_all

lemma set_difference_length: "length (set_difference xs ys) \<le> length xs"
  by (induction xs ys rule: set_difference.induct) auto


lemma common_loop_set:
  "sorted_wrt (<) c \<Longrightarrow>
   set (common_loop tot gs c) =
     set c \<inter> {s. \<forall>g\<in>set gs. s \<in> set (genoRange g 0 tot) \<and> s \<in> set (genoRange g tot tot)}"
proof (induction gs arbitrary: c)
  case Nil
  then show ?case by simp
next
  case (Cons g gs)
  let ?a1 = "std_set (genoRange g 0 tot)"
  let ?a2 = "std_set (genoRange g tot tot)"
  let ?c' = "set_intersection (set_intersection c ?a1) ?a2"
  have s1: "sorted_wrt (<) (set_intersection c ?a1)"
    using Cons.prems by (rule set_intersection_strict)
  have s2: "sorted_wrt (<) ?c'"
    using s1 by (rule set_intersection_strict)
  have e: "set ?c' = set c \<inter> set (genoRange g 0 tot) \<inter> set (genoRange g tot tot)"
    using set_intersection_set[OF s1 std_set_strict, of "genoRange g tot tot"]
          set_intersection_set[OF Cons.prems std_set_strict, of "genoRange g 0 tot"]
    by simp
  show ?case
  proof (cases "?c' = []")
    case True
    then have "set c \<inter> set (genoRange g 0 tot) \<inter> set (genoRange g tot tot) = {}"
      using e by simp
    then show ?thesis using True by (auto simp: Let_def)
  next
    case False
    then have "common_loop tot (g # gs) c = common_loop tot gs ?c'"
      by (simp add: Let_def)
    then show ?thesis using Cons.IH[OF s2] e by auto
  qed
qed

lemma common_loop_strict:
  "sorted_wrt (<) c \<Longrightarrow> sorted_wrt (<) (common_loop tot gs c)"
proof (induction gs arbitrary: c)
  case Nil
  then show ?case by simp
next
  case (Cons g gs)
  have "sorted_wrt (<) (set_intersection (set_intersection c (std_set (genoRange g 0 tot))) (std_set (genoRange g tot tot)))"
    using Cons.prems by (intro set_intersection_strict)
  then show ?case using Cons.IH by (simp add: Let_def)
qed

lemma fixed_sites_strict: "sorted_wrt (<) (fixed_sites pop)"
  by (simp add: fixed_sites_def Let_def common_loop_strict set_erase_strict std_set_strict)

lemma fixed_sites_set:
  assumes "pop_genos pop \<noteq> []"
  shows "set (fixed_sites pop) =
     {s. s \<noteq> 0 \<and> (\<forall>g\<in>set (pop_genos pop).
            s \<in> set (genoRange g 0 (totNumLoci pop)) \<and> s \<in> set (genoRange g (totNumLoci pop) (totNumLoci pop)))}"
proof -
  let ?tot = "totNumLoci pop"
  let ?c = "set_erase 0 (std_set (genoRange (hd (pop_genos pop)) 0 ?tot))"
  have sc: "sorted_wrt (<) ?c" by (simp add: set_erase_strict std_set_strict)
  have hd_in: "hd (pop_genos pop) \<in> set (pop_genos pop)" using assms by simp
  show ?thesis
  proof (cases "?c = []")
    case True
    then have "set ?c = {}" by simp
    then have "\<forall>s. s \<noteq> 0 \<longrightarrow> s \<notin> set (genoRange (hd (pop_genos pop)) 0 ?tot)"
      by auto
    then have "{s. s \<noteq> 0 \<and> (\<forall>g\<in>set (pop_genos pop).
            s \<in> set (genoRange g 0 ?tot) \<and> s \<in> set (genoRange g ?tot ?tot))} = {}"
      using hd_in by blast
    then show ?thesis using True by (simp add: fixed_sites_def Let_def)
  next
    case False
    then have "fixed_sites pop = common_loop ?tot (pop_genos pop) ?c"
      by (simp add: fixed_sites_def Let_def)
    then show ?thesis using common_loop_set[OF sc, of ?tot "pop_genos pop"] hd_in by auto
  qed
qed

lemma fixed_sites_nonzero: "0 \<notin> set (fixed_sites pop)"
proof (cases "set_erase 0 (std_set (genoRange (hd (pop_genos pop)) 0 (totNumLoci pop))) = []")
  case True
  then show ?thesis by (simp add: fixed_sites_def Let_def)
next
  case False
  have sc: "sorted_wrt (<) (set_erase 0 (std_set (genoRange (hd (pop_genos pop)) 0 (totNumLoci pop))))"
    by (simp add: set_erase_strict std_set_strict)
  show ?thesis using False common_loop_set[OF sc, of "totNumLoci pop" "pop_genos pop"]
    by (simp add: fixed_sites_def Let_def)
qed

text \<open>What a copy holds after the rewrite.\<close>

lemma kept_props:
  assumes "sorted_wrt (<) F"
  shows "sorted_wrt (<) (set_difference (set_erase 0 (std_set c)) F)"
    "set (set_difference (set_erase 0 (std_set c)) F) = set c - {0} - set F"
    "length (set_difference (set_erase 0 (std_set c)) F) \<le> length c"
proof -
  let ?kept = "set_difference (set_erase 0 (std_set c)) F"
  have s: "sorted_wrt (<) (set_erase 0 (std_set c))"
    by (simp add: set_erase_strict std_set_strict)
  show "sorted_wrt (<) ?kept" using s by (rule set_difference_strict)
  show "set ?kept = set c - {0} - set F"
    using set_difference_set[OF s assms(1)] by simp
  have "length ?kept \<le> length (set_erase 0 (std_set c))"
    by (rule set_difference_length)
  also have "\<dots> \<le> length (std_set c)"
    by (simp add: set_erase_def removeAll_filter_not_eq)
  also have "\<dots> \<le> length c"
    by (simp add: std_set_def length_remdups_leq)
  finally show "length ?kept \<le> length c" .
qed

lemma revert_ind_copies:
  assumes F: "sorted_wrt (<) F" and l0: "length c0 = tot" and l1: "length c1 = tot"
  shows "revert_ind tot F (c0 @ c1) =
     (set_difference (set_erase 0 (std_set c0)) F
        @ replicate (tot - length (set_difference (set_erase 0 (std_set c0)) F)) 0)
     @ (set_difference (set_erase 0 (std_set c1)) F
        @ replicate (tot - length (set_difference (set_erase 0 (std_set c1)) F)) 0)"
proof -
  let ?k0 = "set_difference (set_erase 0 (std_set c0)) F"
  let ?k1 = "set_difference (set_erase 0 (std_set c1)) F"
  let ?n0 = "?k0 @ replicate (tot - length ?k0) 0"
  let ?n1 = "?k1 @ replicate (tot - length ?k1) 0"
  have k0: "length ?k0 \<le> tot" using kept_props(3)[OF F, of c0] l0 by simp
  have k1: "length ?k1 \<le> tot" using kept_props(3)[OF F, of c1] l1 by simp
  have n0: "length ?n0 = tot" using k0 by simp
  have n1: "length ?n1 = tot" using k1 by simp
  have step0: "revert_copy tot F (c0 @ c1) 0 = ?n0 @ c1"
    using l0 n0 by (simp add: revert_copy_def genoRange_def genoWrite_def Let_def)
  have r1: "genoRange (?n0 @ c1) (1 * tot) tot = c1"
    using n0 l1 by (simp add: genoRange_def)
  have w1: "genoWrite (?n0 @ c1) (1 * tot) ?n1 = ?n0 @ ?n1"
    using n0 n1 l1 by (simp add: genoWrite_def)
  have step1: "revert_copy tot F (?n0 @ c1) 1 = ?n0 @ ?n1"
    unfolding revert_copy_def Let_def r1 using w1 by simp
  show ?thesis unfolding revert_ind_def step0 step1 ..
qed

lemma split_geno:
  assumes "length g = 2 * tot"
  shows "g = genoRange g 0 tot @ genoRange g tot tot"
    "length (genoRange g 0 tot) = tot" "length (genoRange g tot tot) = tot"
  using assms by (simp_all add: genoRange_def)


lemma revert_ind_props:
  assumes F: "sorted_wrt (<) F" and len: "length g = 2 * tot" and p: "p < 2"
  shows "\<exists>kept. genoRange (revert_ind tot F g) (p * tot) tot = kept @ replicate (tot - length kept) 0
            \<and> sorted_wrt (<) kept
            \<and> set kept = set (genoRange g (p * tot) tot) - {0} - set F"
proof -
  let ?c0 = "genoRange g 0 tot" and ?c1 = "genoRange g tot tot"
  let ?k0 = "set_difference (set_erase 0 (std_set ?c0)) F"
  let ?k1 = "set_difference (set_erase 0 (std_set ?c1)) F"
  let ?n0 = "?k0 @ replicate (tot - length ?k0) 0"
  let ?n1 = "?k1 @ replicate (tot - length ?k1) 0"
  note sp = split_geno[OF len]
  have r: "revert_ind tot F g = ?n0 @ ?n1"
    using revert_ind_copies[OF F sp(2) sp(3)] sp(1) by simp
  have k0: "length ?k0 \<le> tot" using kept_props(3)[OF F, of ?c0] sp(2) by simp
  have k1: "length ?k1 \<le> tot" using kept_props(3)[OF F, of ?c1] sp(3) by simp
  have n0: "length ?n0 = tot" using k0 by simp
  have n1: "length ?n1 = tot" using k1 by simp
  have g0: "genoRange (?n0 @ ?n1) 0 tot = ?n0" using n0 by (simp add: genoRange_def)
  have g1: "genoRange (?n0 @ ?n1) tot tot = ?n1" using n0 n1 by (simp add: genoRange_def)
  from p have "p = 0 \<or> p = 1" by auto
  then show ?thesis
  proof
    assume "p = 0"
    then show ?thesis using r g0 kept_props(1,2)[OF F, of ?c0] by auto
  next
    assume "p = 1"
    then show ?thesis using r g1 kept_props(1,2)[OF F, of ?c1] by auto
  qed
qed

lemma wf_pop_len: "wf_pop pop \<Longrightarrow> pop_ploidy pop = 2 \<Longrightarrow> g \<in> set (pop_genos pop) \<Longrightarrow> length g = 2 * totNumLoci pop"
  by (simp add: wf_pop_def list_all_iff)

lemma apply_rewrites:
  assumes "popSize pop \<noteq> 0" "totNumLoci pop \<noteq> 0" "fixed_sites pop \<noteq> []"
  shows "pop_genos (fst (snd (RevertFixedSites_apply noOutput pop out)))
           = map (revert_ind (totNumLoci pop) (fixed_sites pop)) (pop_genos pop)"
  using assms by (simp add: RevertFixedSites_apply_def Let_def)

lemma apply_noop:
  assumes "popSize pop = 0 \<or> totNumLoci pop = 0 \<or> fixed_sites pop = []"
  shows "RevertFixedSites_apply noOutput pop out = (True, pop, out)"
  using assms by (auto simp: RevertFixedSites_apply_def Let_def)

lemma trim_pop_eval:
  "RevertFixedSites_apply False trim_pop [] =
     (True, trim_pop\<lparr>pop_genos := [[0, 0, 0, 0, 0, 0], [7, 0, 0, 0, 0, 0]]\<rparr>, [(1, [2, 5])])"
  by (simp add: RevertFixedSites_apply_def trim_pop_def popSize_def totNumLoci_def fixed_sites_def
      Let_def genoRange_def genoWrite_def std_set_def set_erase_def revert_ind_def revert_copy_def
      numeral_3_eq_3 numeral_2_eq_2)

lemma trim_pop_wf: "wf_pop trim_pop \<and> pop_ploidy trim_pop = 2 \<and> popSize trim_pop = 2 \<and> totNumLoci trim_pop = 3"
  by (simp add: wf_pop_def trim_pop_def totNumLoci_def popSize_def)

lemma trim_pop_fixed: "fixed_sites trim_pop = [2, 5]"
  by (simp add: trim_pop_def totNumLoci_def fixed_sites_def
      Let_def genoRange_def std_set_def set_erase_def)

lemma nofix_pop_wf: "wf_pop nofix_pop \<and> pop_ploidy nofix_pop = 2"
  by (simp add: wf_pop_def nofix_pop_def totNumLoci_def)

lemma nofix_pop_fixed: "fixed_sites nofix_pop = []"
  by (simp add: nofix_pop_def totNumLoci_def fixed_sites_def
      Let_def genoRange_def std_set_def set_erase_def)

text \<open>
  Claim C3. After \<open>RevertFixedSites::apply\<close> returns, no haplotype copy of any individual
  contains a site of the fixed set the operator computed, and the call reports success. When
  the population is empty, has no loci, or the fixed set is empty, the call returns success
  and the population and the output are what they were. For a non-empty population the
  computed fixed set is the set of non-zero sites that occur in both copies of every
  individual. The population is diploid and every individual owns two copies of
  \<open>totNumLoci\<close> entries.
\<close>

theorem C3_trim:
  assumes wf: "wf_pop pop" and pl: "pop_ploidy pop = 2"
  shows "fst (RevertFixedSites_apply noOutput pop out) = True
    \<and> (\<forall>s\<in>set (fixed_sites pop).
          \<forall>g\<in>set (pop_genos (fst (snd (RevertFixedSites_apply noOutput pop out)))).
            s \<notin> set (genoRange g 0 (totNumLoci pop))
            \<and> s \<notin> set (genoRange g (totNumLoci pop) (totNumLoci pop)))
    \<and> (popSize pop = 0 \<or> totNumLoci pop = 0 \<or> fixed_sites pop = []
          \<longrightarrow> RevertFixedSites_apply noOutput pop out = (True, pop, out))
    \<and> (popSize pop \<noteq> 0 \<longrightarrow>
          set (fixed_sites pop) = {s. s \<noteq> 0 \<and> (\<forall>g\<in>set (pop_genos pop).
             s \<in> set (genoRange g 0 (totNumLoci pop))
             \<and> s \<in> set (genoRange g (totNumLoci pop) (totNumLoci pop)))})"
proof (intro conjI)
  show "fst (RevertFixedSites_apply noOutput pop out) = True"
    by (simp add: RevertFixedSites_apply_def Let_def)
  show "popSize pop = 0 \<or> totNumLoci pop = 0 \<or> fixed_sites pop = []
          \<longrightarrow> RevertFixedSites_apply noOutput pop out = (True, pop, out)"
    using apply_noop by blast
  show "popSize pop \<noteq> 0 \<longrightarrow>
          set (fixed_sites pop) = {s. s \<noteq> 0 \<and> (\<forall>g\<in>set (pop_genos pop).
             s \<in> set (genoRange g 0 (totNumLoci pop))
             \<and> s \<in> set (genoRange g (totNumLoci pop) (totNumLoci pop)))}"
    using fixed_sites_set[of pop] by (simp add: popSize_def)
  show "\<forall>s\<in>set (fixed_sites pop).
          \<forall>g\<in>set (pop_genos (fst (snd (RevertFixedSites_apply noOutput pop out)))).
            s \<notin> set (genoRange g 0 (totNumLoci pop))
            \<and> s \<notin> set (genoRange g (totNumLoci pop) (totNumLoci pop))"
  proof (intro ballI)
    fix s g'
    assume s: "s \<in> set (fixed_sites pop)"
      and g': "g' \<in> set (pop_genos (fst (snd (RevertFixedSites_apply noOutput pop out))))"
    let ?tot = "totNumLoci pop" and ?F = "fixed_sites pop"
    have ne: "?F \<noteq> []" using s by auto
    have s0: "s \<noteq> 0" using s fixed_sites_nonzero[of pop] by (metis)
    show "s \<notin> set (genoRange g' 0 ?tot) \<and> s \<notin> set (genoRange g' ?tot ?tot)"
    proof (cases "popSize pop = 0 \<or> ?tot = 0")
      case True
      then have "RevertFixedSites_apply noOutput pop out = (True, pop, out)"
        using apply_noop by blast
      with g' True show ?thesis
        by (auto simp: popSize_def genoRange_def)
    next
      case False
      then have "pop_genos (fst (snd (RevertFixedSites_apply noOutput pop out)))
           = map (revert_ind ?tot ?F) (pop_genos pop)"
        using apply_rewrites ne by blast
      with g' obtain g where g: "g \<in> set (pop_genos pop)" and eq: "g' = revert_ind ?tot ?F g"
        by auto
      have len: "length g = 2 * ?tot" using wf_pop_len[OF wf pl g] .
      from revert_ind_props[OF fixed_sites_strict len, of 0]
      obtain k0 where k0: "genoRange g' (0 * ?tot) ?tot = k0 @ replicate (?tot - length k0) 0"
        "set k0 = set (genoRange g (0 * ?tot) ?tot) - {0} - set ?F"
        using eq by auto
      from revert_ind_props[OF fixed_sites_strict len, of 1]
      obtain k1 where k1: "genoRange g' (1 * ?tot) ?tot = k1 @ replicate (?tot - length k1) 0"
        "set k1 = set (genoRange g (1 * ?tot) ?tot) - {0} - set ?F"
        using eq by auto
      have "s \<notin> set (k0 @ replicate (?tot - length k0) 0)" using k0(2) s s0 by auto
      moreover have "s \<notin> set (k1 @ replicate (?tot - length k1) 0)" using k1(2) s s0 by auto
      ultimately show ?thesis using k0(1) k1(1) by simp
    qed
  qed
qed

theorem C3_trim_witness:
  "wf_pop trim_pop \<and> pop_ploidy trim_pop = 2 \<and> fixed_sites trim_pop = [2, 5]
   \<and> fst (RevertFixedSites_apply False trim_pop []) = True
   \<and> pop_genos (fst (snd (RevertFixedSites_apply False trim_pop []))) ! 1 = [7, 0, 0, 0, 0, 0]
   \<and> 5 \<notin> set (genoRange (pop_genos (fst (snd (RevertFixedSites_apply False trim_pop []))) ! 1)
                  0 (totNumLoci trim_pop))
   \<and> 5 \<notin> set (genoRange (pop_genos (fst (snd (RevertFixedSites_apply False trim_pop []))) ! 1)
                  (totNumLoci trim_pop) (totNumLoci trim_pop))
   \<and> wf_pop nofix_pop \<and> pop_ploidy nofix_pop = 2 \<and> fixed_sites nofix_pop = []
   \<and> RevertFixedSites_apply False nofix_pop [] = (True, nofix_pop, [])"
proof -
  have a: "wf_pop trim_pop" "pop_ploidy trim_pop = 2" using trim_pop_wf by simp_all
  have b: "wf_pop nofix_pop" "pop_ploidy nofix_pop = 2" using nofix_pop_wf by simp_all
  have e: "pop_genos (fst (snd (RevertFixedSites_apply False trim_pop []))) ! 1 = [7, 0, 0, 0, 0, 0]"
    by (simp add: trim_pop_eval)
  have m: "5 \<in> set (fixed_sites trim_pop)" by (simp add: trim_pop_fixed)
  have n: "pop_genos (fst (snd (RevertFixedSites_apply False trim_pop []))) ! 1
      \<in> set (pop_genos (fst (snd (RevertFixedSites_apply False trim_pop []))))"
    by (simp add: trim_pop_eval)
  show ?thesis
    using a b e m n trim_pop_fixed nofix_pop_fixed
      C3_trim[OF a, of False "[]"] C3_trim[OF b, of False "[]"]
    by blast
qed

text \<open>
  Claim C10. When \<open>RevertFixedSites::apply\<close> rewrites the haplotypes (the population is
  not empty, has loci, and the fixed set is not empty), every copy \<open>p\<close> of every individual
  \<open>i\<close> ends as a strictly increasing list of sites followed by zeros up to \<open>totNumLoci\<close>
  entries, the sites being exactly the non-zero sites the copy held that are not fixed: the
  survivors are sorted and deduplicated, and packed left.
\<close>

theorem C10_trim_sorted:
  assumes wf: "wf_pop pop" and pl: "pop_ploidy pop = 2"
    and ne: "popSize pop \<noteq> 0" "totNumLoci pop \<noteq> 0" "fixed_sites pop \<noteq> []"
    and i: "i < popSize pop" and p: "p < 2"
  shows "\<exists>kept.
      genoRange (pop_genos (fst (snd (RevertFixedSites_apply noOutput pop out))) ! i)
                (p * totNumLoci pop) (totNumLoci pop)
        = kept @ replicate (totNumLoci pop - length kept) 0
      \<and> sorted_wrt (<) kept
      \<and> set kept = set (genoRange (pop_genos pop ! i) (p * totNumLoci pop) (totNumLoci pop))
                     - {0} - set (fixed_sites pop)"
proof -
  let ?tot = "totNumLoci pop" and ?F = "fixed_sites pop"
  have "pop_genos (fst (snd (RevertFixedSites_apply noOutput pop out)))
           = map (revert_ind ?tot ?F) (pop_genos pop)"
    using apply_rewrites ne by blast
  then have eq: "pop_genos (fst (snd (RevertFixedSites_apply noOutput pop out))) ! i
      = revert_ind ?tot ?F (pop_genos pop ! i)"
    using i by (simp add: popSize_def)
  have "pop_genos pop ! i \<in> set (pop_genos pop)" using i by (simp add: popSize_def)
  then have len: "length (pop_genos pop ! i) = 2 * ?tot" using wf_pop_len[OF wf pl] by blast
  show ?thesis unfolding eq using revert_ind_props[OF fixed_sites_strict len p] .
qed

theorem C10_trim_sorted_witness:
  "wf_pop trim_pop \<and> pop_ploidy trim_pop = 2 \<and> popSize trim_pop \<noteq> 0 \<and> totNumLoci trim_pop \<noteq> 0
   \<and> fixed_sites trim_pop \<noteq> [] \<and> (1::nat) < popSize trim_pop \<and> (0::nat) < 2
   \<and> pop_genos (fst (snd (RevertFixedSites_apply False trim_pop []))) ! 1 = [7, 0, 0, 0, 0, 0]
   \<and> (\<exists>kept.
      genoRange (pop_genos (fst (snd (RevertFixedSites_apply False trim_pop []))) ! 1)
                (0 * totNumLoci trim_pop) (totNumLoci trim_pop)
        = kept @ replicate (totNumLoci trim_pop - length kept) 0
      \<and> sorted_wrt (<) kept
      \<and> set kept = set (genoRange (pop_genos trim_pop ! 1) (0 * totNumLoci trim_pop) (totNumLoci trim_pop))
                     - {0} - set (fixed_sites trim_pop))"
proof -
  have a: "wf_pop trim_pop" "pop_ploidy trim_pop = 2" using trim_pop_wf by simp_all
  have c: "popSize trim_pop \<noteq> 0" "totNumLoci trim_pop \<noteq> 0" "fixed_sites trim_pop \<noteq> []"
    using trim_pop_wf trim_pop_fixed by simp_all
  have i: "1 < popSize trim_pop" using trim_pop_wf by simp
  have p: "(0::nat) < 2" by simp
  have e: "pop_genos (fst (snd (RevertFixedSites_apply False trim_pop []))) ! 1 = [7, 0, 0, 0, 0, 0]"
    by (simp add: trim_pop_eval)
  show ?thesis
    using a c i p e C10_trim_sorted[OF a c i p, of False "[]"] by blast
qed

section \<open>Properties of InfSitesSelector\<close>










lemmas sel_eval_defs = getFitnessValue_def Let_def lower_additive_def double_to_int_def
  const_env_def func_env_def loc_func_def no_func_def empty_sel_def





lemma getFitnessValue_distribution_caches:
  assumes "m_selDist env \<noteq> []"
  shows "\<exists>s h st'. getFitnessValue env st mutant = Inr ((s, h), st')
           \<and> m_selFactory st' mutant = Some (s, h)
           \<and> m_newMutants st' = m_newMutants st @ [mutant]"
  using assms by (auto simp: getFitnessValue_def Let_def lower_additive_def split: if_splits)

lemma getFitnessValue_function_skips_cache:
  assumes "m_selDist env = []" and "getFitnessValue env st mutant = Inr (sf, st')"
  shows "m_selFactory st' = m_selFactory st \<and> m_newMutants st' = m_newMutants st"
  using assms
  by (auto simp: getFitnessValue_def Let_def lower_additive_def split: if_splits PyObject.splits)

text \<open>
  Claim C1, at an evaluator configured with a user function. The first resolution of site
  5 returns \<open>(0, 0.5)\<close> and leaves \<open>m_selFactory\<close> without an entry for 5 and
  \<open>m_newMutants\<close> empty; the next resolution of site 5 calls the function again and
  returns \<open>(0.1, 0.5)\<close>. With the constant distribution the pair is stored and the site
  is appended.
\<close>

theorem C1_function_branch_not_cached:
  "getFitnessValue func_env empty_sel 5 = Inr ((0, 0.5), empty_sel\<lparr>sel_draws := 1\<rparr>)
   \<and> m_selFactory (empty_sel\<lparr>sel_draws := 1\<rparr>) 5 = None
   \<and> m_newMutants (empty_sel\<lparr>sel_draws := 1\<rparr>) = []
   \<and> getFitnessValue func_env (empty_sel\<lparr>sel_draws := 1\<rparr>) 5
        = Inr ((0.1, 0.5), empty_sel\<lparr>sel_draws := 2\<rparr>)
   \<and> getFitnessValue const_env empty_sel 5
        = Inr ((0.1, 0.3), \<lparr>m_selFactory = [5 \<mapsto> (0.1, 0.3)], m_newMutants = [5],
                           m_additive = False, sel_draws = 0\<rparr>)"
  by (simp add: sel_eval_defs)











lemma mul_coef_add: "mul_coef sc \<Longrightarrow> add_coef sc"
  by (simp add: mul_coef_def)





































section \<open>Properties of InfSitesMutator\<close>

lemma place_scan_step:
  assumes "j < length geno" "geno ! j \<noteq> 0" "geno ! j \<noteq> mutLoc"
  shows "place_scan env mutLoc geno j = place_scan env mutLoc geno (j + 1)"
  using assms place_scan.simps[of env mutLoc geno j] by simp

lemma place_scan_skip:
  assumes "\<forall>i<j'. geno ! i \<noteq> 0 \<and> geno ! i \<noteq> mutLoc" and "j' \<le> length geno"
  shows "j \<le> j' \<Longrightarrow> place_scan env mutLoc geno j = place_scan env mutLoc geno j'"
proof (induction "j' - j" arbitrary: j)
  case 0
  then show ?case by simp
next
  case (Suc d)
  have lt: "j < j'" using Suc.hyps(2) by simp
  have a: "geno ! j \<noteq> 0 \<and> geno ! j \<noteq> mutLoc" using assms(1) lt by blast
  have b: "j < length geno" using lt assms(2) by simp
  have "place_scan env mutLoc geno j = place_scan env mutLoc geno (j + 1)"
    using place_scan_step[OF b] a by blast
  also have "\<dots> = place_scan env mutLoc geno j'"
  proof (rule Suc.hyps(1))
    show "d = j' - (j + 1)" using Suc.hyps(2) by simp
    show "j + 1 \<le> j'" using lt by simp
  qed
  finally show ?case .
qed

lemma back_scan_step:
  assumes "k < length geno" "geno ! k \<noteq> 0"
  shows "back_scan geno j k = back_scan geno j (k + 1)"
  using assms back_scan.simps[of geno j k] by simp

lemma back_scan_hit:
  assumes "k < length geno" "geno ! k = 0"
  shows "back_scan geno j k = Some ((geno[j := geno ! (k - 1)])[k - 1 := 0])"
  using assms back_scan.simps[of geno j k] by simp

lemma back_scan_skip:
  assumes "\<forall>i. k \<le> i \<and> i < k' \<longrightarrow> geno ! i \<noteq> 0" and "k' < length geno" and "geno ! k' = 0"
  shows "k \<le> k' \<Longrightarrow> back_scan geno j k = Some ((geno[j := geno ! (k' - 1)])[k' - 1 := 0])"
  using assms(1)
proof (induction "k' - k" arbitrary: k)
  case 0
  then have "k = k'" by simp
  then show ?case using back_scan_hit[OF assms(2,3)] by simp
next
  case (Suc d)
  have lt: "k < k'" using Suc.hyps(2) by simp
  have a: "geno ! k \<noteq> 0" using Suc.prems(2) lt by blast
  have b: "k < length geno" using assms(2) lt by simp
  have "back_scan geno j k = back_scan geno j (k + 1)"
    using back_scan_step[OF b a] .
  also have "\<dots> = Some ((geno[j := geno ! (k' - 1)])[k' - 1 := 0])"
  proof (rule Suc.hyps(1))
    show "d = k' - (k + 1)" using Suc.hyps(2) by simp
    show "k + 1 \<le> k'" using lt by simp
    show "\<forall>i. k + 1 \<le> i \<and> i < k' \<longrightarrow> geno ! i \<noteq> 0" using Suc.prems(2) by simp
  qed
  finally show ?case .
qed

lemma back_mutation_result:
  assumes as0: "0 \<notin> set as" and asm: "mutLoc \<notin> set as" and bs0: "0 \<notin> set bs" and m0: "mutLoc \<noteq> 0"
  shows "place_scan env mutLoc (as @ mutLoc # bs @ replicate (Suc n) 0) 0
    = Inr ((if bs = [] then as @ replicate (Suc (Suc n)) 0
            else as @ last bs # butlast bs @ replicate (Suc (Suc n)) 0), Some 1)"
proof -
  let ?g = "as @ mutLoc # bs @ replicate (Suc n) 0"
  let ?j = "length as"
  let ?k = "length as + 1 + length bs"
  have pre: "\<forall>i<?j. ?g ! i \<noteq> 0 \<and> ?g ! i \<noteq> mutLoc"
  proof (intro allI impI)
    fix i assume i: "i < ?j"
    then have "?g ! i = as ! i" by (simp add: nth_append)
    moreover have "as ! i \<in> set as" using i by simp
    ultimately show "?g ! i \<noteq> 0 \<and> ?g ! i \<noteq> mutLoc" using as0 asm by metis
  qed
  have s1: "place_scan env mutLoc ?g 0 = place_scan env mutLoc ?g ?j"
    by (rule place_scan_skip[OF pre]) simp_all
  have gj: "?g ! ?j = mutLoc" by simp
  have mid: "\<forall>i. ?j + 1 \<le> i \<and> i < ?k \<longrightarrow> ?g ! i \<noteq> 0"
  proof (intro allI impI)
    fix i assume i: "?j + 1 \<le> i \<and> i < ?k"
    define d where "d = i - (?j + 1)"
    have d: "i = ?j + 1 + d" "d < length bs" using i by (auto simp: d_def)
    have "?g ! i = (mutLoc # bs @ replicate (Suc n) 0) ! (1 + d)"
      unfolding d(1) by (simp add: nth_append)
    also have "\<dots> = bs ! d" using d(2) by (simp add: nth_append)
    finally have "?g ! i = bs ! d" .
    moreover have "bs ! d \<in> set bs" using d(2) by simp
    ultimately show "?g ! i \<noteq> 0" using bs0 by metis
  qed
  have gk: "?g ! ?k = 0" by (simp add: nth_append nth_Cons')
  have kl: "?k < length ?g" by simp
  have b: "back_scan ?g ?j (?j + 1) = Some ((?g[?j := ?g ! (?k - 1)])[?k - 1 := 0])"
    by (rule back_scan_skip[OF mid kl gk]) simp
  have s2: "place_scan env mutLoc ?g ?j = Inr ((?g[?j := ?g ! (?k - 1)])[?k - 1 := 0], Some 1)"
    using gj m0 b kl place_scan.simps[of env mutLoc ?g ?j] by simp
  have res: "(?g[?j := ?g ! (?k - 1)])[?k - 1 := 0]
      = (if bs = [] then as @ replicate (Suc (Suc n)) 0
            else as @ last bs # butlast bs @ replicate (Suc (Suc n)) 0)"
  proof (cases "bs = []")
    case True
    have "(as @ mutLoc # replicate (Suc n) 0)[length as := 0] = as @ 0 # replicate (Suc n) 0"
      by (rule list_update_length)
    then show ?thesis using True by simp
  next
    case False
    then obtain bs' l where bs: "bs = bs' @ [l]" by (metis append_butlast_last_id)
    let ?zs = "replicate (Suc n) (0::nat)"
    have g: "?g = (as @ mutLoc # bs') @ l # ?zs" using bs by simp
    have k1: "?k - 1 = length (as @ mutLoc # bs')" using bs by simp
    have gl: "?g ! (?k - 1) = l" unfolding k1 g by (rule nth_append_length)
    have u1: "?g[?j := l] = as @ l # bs' @ l # ?zs"
      using bs list_update_length[of as mutLoc "bs' @ l # ?zs" l] by simp
    have k2: "?k - 1 = length (as @ l # bs')" using bs by simp
    have "(as @ l # bs' @ l # ?zs)[?k - 1 := 0] = ((as @ l # bs') @ l # ?zs)[length (as @ l # bs') := 0]"
      unfolding k2 by simp
    also have "\<dots> = (as @ l # bs') @ 0 # ?zs" by (rule list_update_length)
    finally have u2: "(as @ l # bs' @ l # ?zs)[?k - 1 := 0] = as @ l # bs' @ 0 # ?zs" by simp
    have "(?g[?j := ?g ! (?k - 1)])[?k - 1 := 0] = as @ l # bs' @ 0 # ?zs"
      unfolding gl u1 u2 ..
    then show ?thesis using bs False by simp
  qed
  show ?thesis using s1 s2 res by simp
qed

lemma packed_left_split:
  assumes "packed_left geno"
  shows "geno = takeWhile (\<lambda>x. x \<noteq> 0) geno @ replicate (length (dropWhile (\<lambda>x. x \<noteq> 0) geno)) 0"
proof -
  have "\<forall>x\<in>set (dropWhile (\<lambda>x. x \<noteq> 0) geno). x = 0"
    using assms by (simp add: packed_left_def list_all_iff)
  then have "dropWhile (\<lambda>x. x \<noteq> 0) geno = replicate (length (dropWhile (\<lambda>x. x \<noteq> 0) geno)) 0"
    by (simp add: replicate_length_same)
  then show ?thesis by (metis takeWhile_dropWhile_id)
qed

lemma packed_left_append: "0 \<notin> set xs \<Longrightarrow> packed_left (xs @ replicate n 0)"
proof -
  assume a: "0 \<notin> set xs"
  then have "\<forall>x\<in>set xs. x \<noteq> 0" by metis
  then have "dropWhile (\<lambda>x. x \<noteq> 0) (xs @ replicate n 0) = dropWhile (\<lambda>x. x \<noteq> 0) (replicate n 0)"
    by (simp add: dropWhile_append2)
  also have "\<dots> = replicate n 0" by (cases n) simp_all
  finally show ?thesis by (simp add: packed_left_def list_all_iff)
qed

lemma filter_nz_append: "0 \<notin> set xs \<Longrightarrow> filter (\<lambda>a. a \<noteq> 0) (xs @ replicate n (0::nat)) = xs"
proof -
  assume "0 \<notin> set xs"
  then have "\<forall>x\<in>set xs. x \<noteq> 0" by metis
  then have "filter (\<lambda>a. a \<noteq> 0) xs = xs" by (simp add: filter_id_conv)
  then show ?thesis by simp
qed

text \<open>
  Claim C6. For a slot that is packed left, has no duplicate non-zero entry, contains the
  non-zero location \<open>mutLoc\<close> and has an empty entry, the loop over the slot takes the
  back-mutation branch (event code 1) and leaves a slot of the same length that is packed
  left, has one non-zero entry less, has no duplicate non-zero entry and does not contain
  \<open>mutLoc\<close>; its sites are the former sites without \<open>mutLoc\<close>.
\<close>

theorem C6_back_mutation:
  assumes pl: "packed_left geno" and di: "distinct (filter (\<lambda>a. a \<noteq> 0) geno)"
    and mem: "mutLoc \<in> set geno" and m0: "mutLoc \<noteq> 0" and z: "0 \<in> set geno"
  shows "\<exists>geno'. place_scan env mutLoc geno 0 = Inr (geno', Some 1)
          \<and> length geno' = length geno
          \<and> packed_left geno'
          \<and> Suc (length (filter (\<lambda>a. a \<noteq> 0) geno')) = length (filter (\<lambda>a. a \<noteq> 0) geno)
          \<and> distinct (filter (\<lambda>a. a \<noteq> 0) geno')
          \<and> mutLoc \<notin> set geno'
          \<and> set (filter (\<lambda>a. a \<noteq> 0) geno') = set (filter (\<lambda>a. a \<noteq> 0) geno) - {mutLoc}"
proof -
  obtain xs m where g: "geno = xs @ replicate m 0" and xs0: "0 \<notin> set xs"
  proof
    show "geno = takeWhile (\<lambda>x. x \<noteq> 0) geno @ replicate (length (dropWhile (\<lambda>x. x \<noteq> 0) geno)) 0"
      using packed_left_split[OF pl] .
    show "0 \<notin> set (takeWhile (\<lambda>x. x \<noteq> 0) geno)"
      by (metis (mono_tags, lifting) set_takeWhileD)
  qed
  have "m \<noteq> 0" using z xs0 unfolding g by auto
  then obtain n where n: "m = Suc n" by (cases m) auto
  have "mutLoc \<in> set xs" using mem m0 unfolding g by auto
  then obtain as bs where sp: "xs = as @ mutLoc # bs" and asm: "mutLoc \<notin> set as"
    by (meson split_list_first)
  have as0: "0 \<notin> set as" and bs0: "0 \<notin> set bs" using xs0 sp by auto
  have fx: "filter (\<lambda>a. a \<noteq> 0) geno = xs" unfolding g using filter_nz_append[OF xs0] .
  have dx: "distinct (as @ mutLoc # bs)" using di fx sp by simp
  then have bsm: "mutLoc \<notin> set bs" and dab: "distinct as" "distinct bs" "set as \<inter> set bs = {}"
    by auto
  have ge: "geno = as @ mutLoc # bs @ replicate (Suc n) 0" unfolding g sp n by simp
  define ys where "ys = (if bs = [] then as else as @ last bs # butlast bs)"
  have res: "place_scan env mutLoc geno 0 = Inr (ys @ replicate (Suc (Suc n)) 0, Some 1)"
    using back_mutation_result[OF as0 asm bs0 m0, of env n] ge by (simp add: ys_def)
  have sety: "set ys = set as \<union> set bs"
  proof (cases "bs = []")
    case True
    then show ?thesis by (simp add: ys_def)
  next
    case False
    then have "set bs = insert (last bs) (set (butlast bs))"
      by (metis append_butlast_last_id list.simps(15) rotate1.simps(2) set_rotate1)
    then show ?thesis using False by (auto simp: ys_def)
  qed
  have disty: "distinct ys"
  proof (cases "bs = []")
    case True
    then show ?thesis using dab by (simp add: ys_def)
  next
    case False
    then have b: "bs = butlast bs @ [last bs]" by simp
    have "distinct (butlast bs @ [last bs])" using dab(2) b by metis
    then have "distinct (butlast bs)" "last bs \<notin> set (butlast bs)" by simp_all
    moreover have "last bs \<in> set bs" using False by simp
    moreover have "set (butlast bs) \<subseteq> set bs" by (meson in_set_butlastD subsetI)
    ultimately show ?thesis using False dab by (auto simp: ys_def)
  qed
  have leny: "Suc (length ys) = length xs"
    using sp by (cases "bs = []") (simp_all add: ys_def)
  have ys0: "0 \<notin> set ys" using sety as0 bs0 by simp
  have ysm: "mutLoc \<notin> set ys" using sety asm bsm by simp
  let ?g' = "ys @ replicate (Suc (Suc n)) 0"
  have fy: "filter (\<lambda>a. a \<noteq> 0) ?g' = ys" using filter_nz_append[OF ys0] .
  have "length ?g' = length geno" using leny unfolding g n by simp
  moreover have "packed_left ?g'" using packed_left_append[OF ys0] .
  moreover have "Suc (length (filter (\<lambda>a. a \<noteq> 0) ?g')) = length (filter (\<lambda>a. a \<noteq> 0) geno)"
    using fy fx leny by simp
  moreover have "distinct (filter (\<lambda>a. a \<noteq> 0) ?g')" using fy disty by simp
  moreover have "mutLoc \<notin> set ?g'" using ysm m0 by simp
  moreover have "set (filter (\<lambda>a. a \<noteq> 0) ?g') = set (filter (\<lambda>a. a \<noteq> 0) geno) - {mutLoc}"
  proof -
    have "set xs = insert mutLoc (set as \<union> set bs)" using sp by simp
    then have "set xs - {mutLoc} = set as \<union> set bs" using asm bsm by auto
    then show ?thesis unfolding fy fx using sety by simp
  qed
  ultimately show ?thesis using res by blast
qed

lemma mut_log_fields [simp]:
  "mut_pop (mut_log env l st) = mut_pop st"
  "m_mutants (mut_log env l st) = m_mutants st"
  "saturated (mut_log env l st) = saturated st"
  "mut_draws (mut_log env l st) = mut_draws st"
  "mut_out (mut_log env l st) = (if mut_noOutput env then mut_out st else mut_out st @ [l])"
  by (simp_all add: mut_log_def)


lemma locateVacantLocus_fields:
  assumes "locateVacantLocus env b e st = (newLoc, st1)"
  shows "mut_pop st1 = mut_pop st" "saturated st1 = saturated st" "mut_out st1 = mut_out st"
    "mut_draws st1 = mut_draws st + 1"
  using assms by (auto simp: locateVacantLocus_def Let_def split: if_splits option.splits)




















lemma place_scan_event:
  "place_scan env mutLoc geno j = Inr (geno', ev) \<Longrightarrow> ev = None \<or> ev = Some 0 \<or> ev = Some 1"
proof (induction env mutLoc geno j rule: place_scan.induct)
  case (1 env mutLoc geno j)
  show ?case
  proof (cases "j < length geno \<and> geno ! j \<noteq> 0 \<and> geno ! j \<noteq> mutLoc")
    case True
    then have "place_scan env mutLoc geno j = place_scan env mutLoc geno (j + 1)"
      using place_scan_step by blast
    then show ?thesis using 1 True by simp
  next
    case False
    then show ?thesis using "1.prems" place_scan.simps[of env mutLoc geno j]
      by (auto split: if_splits option.splits)
  qed
qed

lemma place_mutation_fields:
  assumes "place_mutation env i p ch m st = Inr st'"
  shows "m_mutants st' = m_mutants st" "saturated st' = saturated st" "mut_draws st' = mut_draws st"
    "mut_out st' = mut_out st
     \<or> mut_out st' = mut_out st @ [(pop_gen (mut_pop st), m, i, 0)]
     \<or> mut_out st' = mut_out st @ [(pop_gen (mut_pop st), m, i, 1)]"
proof -
  let ?pop = "mut_pop st"
  let ?geno = "genoSlot (pop_numLoci ?pop) (pop_genos ?pop ! i) p ch"
  let ?pop1 = "(if ?geno ! (pop_numLoci ?pop ! ch - 1) \<noteq> 0 then addLoci ?pop ch 10 else ?pop)"
  let ?geno1 = "genoSlot (pop_numLoci ?pop1) (pop_genos ?pop1 ! i) p ch"
  obtain geno2 ev where ps: "place_scan env m ?geno1 0 = Inr (geno2, ev)"
    using assms by (cases "place_scan env m ?geno1 0") (auto simp: place_mutation_def Let_def)
  have e: "ev = None \<or> ev = Some 0 \<or> ev = Some 1" using place_scan_event[OF ps] .
  define st1 where "st1 = st\<lparr>mut_pop := ?pop1\<lparr>pop_genos := (pop_genos ?pop1)
                 [i := genoWrite (pop_genos ?pop1 ! i) (slotBegin (pop_numLoci ?pop1) p ch) geno2]\<rparr>\<rparr>"
  have r: "(case ev of None \<Rightarrow> st1
            | Some code \<Rightarrow> mut_log env (pop_gen ?pop, m, i, code) st1) = st'"
    using assms unfolding place_mutation_def Let_def ps st1_def by simp
  have f1: "m_mutants st1 = m_mutants st" "saturated st1 = saturated st"
    "mut_draws st1 = mut_draws st" "mut_out st1 = mut_out st"
    by (simp_all add: st1_def)
  from e show "m_mutants st' = m_mutants st"
    by (elim disjE) (use r f1 in auto)
  from e show "saturated st' = saturated st"
    by (elim disjE) (use r f1 in auto)
  from e show "mut_draws st' = mut_draws st"
    by (elim disjE) (use r f1 in auto)
  from e show "mut_out st' = mut_out st
     \<or> mut_out st' = mut_out st @ [(pop_gen (mut_pop st), m, i, 0)]
     \<or> mut_out st' = mut_out st @ [(pop_gen (mut_pop st), m, i, 1)]"
    by (elim disjE) (use r f1 in \<open>auto split: if_splits\<close>)
qed

lemma find_pos_props:
  "x \<in> set xs \<Longrightarrow> find_pos xs x < length xs \<and> xs ! find_pos xs x = x \<and> (\<forall>i<find_pos xs x. xs ! i \<noteq> x)"
proof (induction xs)
  case Nil
  then show ?case by simp
next
  case (Cons y ys)
  show ?case
  proof (cases "y = x")
    case True
    then show ?thesis by simp
  next
    case False
    then have "x \<in> set ys" using Cons.prems by simp
    from Cons.IH[OF this] False show ?thesis by (auto simp: nth_Cons')
  qed
qed

lemma place_scan_new:
  assumes nm: "mutLoc \<notin> set geno" and z: "0 \<in> set geno" and mx: "mutLoc < ModuleMaxAllele env"
  shows "place_scan env mutLoc geno 0 = Inr (geno[find_pos geno 0 := ToAllele env mutLoc], Some 0)"
proof -
  let ?j = "find_pos geno 0"
  note fp = find_pos_props[OF z]
  have pre: "\<forall>i<?j. geno ! i \<noteq> 0 \<and> geno ! i \<noteq> mutLoc"
  proof (intro allI impI)
    fix i assume i: "i < ?j"
    then have "geno ! i \<in> set geno" using fp by simp
    then show "geno ! i \<noteq> 0 \<and> geno ! i \<noteq> mutLoc" using nm fp i by metis
  qed
  have "place_scan env mutLoc geno 0 = place_scan env mutLoc geno ?j"
    by (rule place_scan_skip[OF pre]) (use fp in simp_all)
  also have "\<dots> = Inr (geno[?j := ToAllele env mutLoc], Some 0)"
    using fp mx place_scan.simps[of env mutLoc geno ?j] by simp
  finally show ?thesis .
qed

lemma set_insert_member: "x \<in> set s \<Longrightarrow> set_insert x s = s"
  by (simp add: set_insert_def)

lemma back_eval: "place_scan sat_env 7 [4, 7, 9, 0, 0] 0 = Inr ([4, 9, 0, 0, 0], Some 1)"
  by (simp add: place_scan.simps back_scan.simps sat_env_def)

theorem C6_back_mutation_witness:
  "packed_left [4, 7, 9, 0, 0] \<and> distinct (filter (\<lambda>a. a \<noteq> 0) [4, 7, 9, 0, 0 :: nat])
   \<and> (7::nat) \<in> set [4, 7, 9, 0, 0] \<and> (7::nat) \<noteq> 0 \<and> (0::nat) \<in> set [4, 7, 9, 0, 0]
   \<and> place_scan sat_env 7 [4, 7, 9, 0, 0] 0 = Inr ([4, 9, 0, 0, 0], Some 1)
   \<and> (\<exists>geno'. place_scan sat_env 7 [4, 7, 9, 0, 0] 0 = Inr (geno', Some 1)
          \<and> length geno' = length [4, 7, 9, 0, 0 :: nat]
          \<and> packed_left geno'
          \<and> Suc (length (filter (\<lambda>a. a \<noteq> 0) geno')) = length (filter (\<lambda>a. a \<noteq> 0) [4, 7, 9, 0, 0 :: nat])
          \<and> distinct (filter (\<lambda>a. a \<noteq> 0) geno')
          \<and> 7 \<notin> set geno'
          \<and> set (filter (\<lambda>a. a \<noteq> 0) geno') = set (filter (\<lambda>a. a \<noteq> 0) [4, 7, 9, 0, 0]) - {7})"
proof -
  have a: "packed_left [4, 7, 9, 0, 0]" by (simp add: packed_left_def)
  have b: "distinct (filter (\<lambda>a. a \<noteq> 0) [4, 7, 9, 0, 0 :: nat])" by simp
  have c: "(7::nat) \<in> set [4, 7, 9, 0, 0]" by simp
  have d: "(7::nat) \<noteq> 0" by simp
  have e: "(0::nat) \<in> set [4, 7, 9, 0, 0]" by simp
  show ?thesis using a b c d e back_eval C6_back_mutation[OF a b c d e, of sat_env] by blast
qed

lemma sat_model: "m_model sat_env = 2"
  by (simp add: sat_env_def)




lemma concat_slice:
  "k < length xss \<Longrightarrow>
   take (length (xss ! k)) (drop (sum_list (map length (take k xss))) (concat xss)) = xss ! k"
proof (induction xss arbitrary: k)
  case Nil
  then show ?case by simp
next
  case (Cons xs xss)
  show ?case
  proof (cases k)
    case 0
    then show ?thesis by simp
  next
    case (Suc j)
    then have "j < length xss" using Cons.prems by simp
    from Cons.IH[OF this] show ?thesis using Suc by simp
  qed
qed

lemma sum_take_Suc:
  "ch < length nl \<Longrightarrow> sum_list (take ch nl) + nl ! ch = sum_list (take (Suc ch) nl)"
  by (simp add: take_Suc_conv_app_nth)

lemma sum_take_le: "sum_list (take k (nl :: nat list)) \<le> sum_list nl"
proof -
  have "sum_list nl = sum_list (take k nl) + sum_list (drop k nl)"
    by (metis append_take_drop_id sum_list.append)
  then show ?thesis by simp
qed

lemma slot_in_range:
  assumes "p < P" "ch < length nl" "length g = P * sum_list nl"
  shows "slotBegin nl p ch + nl ! ch \<le> length g"
proof -
  have a: "sum_list (take ch nl) + nl ! ch \<le> sum_list nl"
    using sum_take_Suc[OF assms(2)] sum_take_le[of "Suc ch" nl] by simp
  have "Suc p \<le> P" using assms(1) by simp
  then have "Suc p * sum_list nl \<le> P * sum_list nl" by (rule mult_le_mono1)
  then have "p * sum_list nl + sum_list nl \<le> length g" using assms(3) by simp
  then show ?thesis using a by (simp add: slotBegin_def)
qed

lemma slot_length:
  assumes "p < P" "ch < length nl" "length g = P * sum_list nl"
  shows "length (genoSlot nl g p ch) = nl ! ch"
  using slot_in_range[OF assms] by (simp add: genoSlot_def genoRange_def)

lemma slot_subset: "set (genoSlot nl g p ch) \<subseteq> set g"
proof -
  have "set (take (nl ! ch) (drop (slotBegin nl p ch) g)) \<subseteq> set (drop (slotBegin nl p ch) g)"
    by (rule set_take_subset)
  also have "\<dots> \<subseteq> set g" by (rule set_drop_subset)
  finally show ?thesis by (simp add: genoSlot_def genoRange_def)
qed

lemma slot_read_write:
  assumes "length xs = nl ! ch" "slotBegin nl p ch + nl ! ch \<le> length g"
  shows "genoSlot nl (genoWrite g (slotBegin nl p ch) xs) p ch = xs"
    and "length (genoWrite g (slotBegin nl p ch) xs) = length g"
  using assms by (simp_all add: genoSlot_def genoRange_def genoWrite_def)

lemma take_drop_take:
  "b + m \<le> L \<Longrightarrow> take m (drop b (take L ys)) = take m (drop b ys)"
  by (simp add: drop_take min_def)

lemma sum_list_grow:
  "ch < length nl \<Longrightarrow> sum_list (nl[ch := nl ! ch + n]) = sum_list nl + (n::nat)"
  by (simp add: sum_list_update)

lemma grown_slots:
  fixes nl :: "nat list" and g :: "allele list" and n :: nat
  assumes p: "p < P" and ch: "ch < length nl" and len: "length g = P * sum_list nl"
  defines "xss \<equiv> map (\<lambda>c. genoSlot nl g p c @ (if c = ch then replicate n 0 else [])) [0..<length nl]"
  shows "map length xss = nl[ch := nl ! ch + n]"
proof (rule nth_equalityI)
  show "length (map length xss) = length (nl[ch := nl ! ch + n])" by (simp add: xss_def)
next
  fix c assume "c < length (map length xss)"
  then have c: "c < length nl" by (simp add: xss_def)
  have "length (genoSlot nl g p c) = nl ! c" using slot_length[OF p c len] .
  then show "map length xss ! c = nl[ch := nl ! ch + n] ! c"
    using c by (simp add: xss_def nth_list_update)
qed

lemma addLoci_slot:
  fixes nl :: "nat list" and g :: "allele list" and n :: nat and P :: nat
  assumes p: "p < P" and ch: "ch < length nl" and c: "c < length nl"
    and len: "length g = P * sum_list nl"
  defines "g' \<equiv> concat (map (\<lambda>p. concat (map (\<lambda>c. genoSlot nl g p c
                        @ (if c = ch then replicate n 0 else [])) [0..<length nl])) [0..<P])"
  shows "genoSlot (nl[ch := nl ! ch + n]) g' p c
           = genoSlot nl g p c @ (if c = ch then replicate n 0 else [])"
    and "length g' = P * sum_list (nl[ch := nl ! ch + n])"
proof -
  let ?nl' = "nl[ch := nl ! ch + n]"
  let ?L' = "sum_list ?nl'"
  let ?row = "\<lambda>q. map (\<lambda>c. genoSlot nl g q c @ (if c = ch then replicate n 0 else [])) [0..<length nl]"
  let ?copy = "\<lambda>q. concat (?row q)"
  let ?xss = "map ?copy [0..<P]"
  have g': "g' = concat ?xss" by (simp add: g'_def)
  have rowlen: "map length (?row q) = ?nl'" if "q < P" for q
    using grown_slots[OF that ch len] .
  have copylen: "length (?copy q) = ?L'" if "q < P" for q
    using rowlen[OF that] by (simp add: length_concat)
  have lens: "map length ?xss = replicate P ?L'"
  proof (rule nth_equalityI)
    show "length (map length ?xss) = length (replicate P ?L')" by simp
  next
    fix q assume "q < length (map length ?xss)"
    then have q: "q < P" by simp
    then show "map length ?xss ! q = replicate P ?L' ! q" using copylen[OF q] by simp
  qed
  show glen: "length g' = P * ?L'"
    unfolding g' length_concat lens by (simp add: sum_list_replicate)
  have pre: "sum_list (map length (take p ?xss)) = p * ?L'"
  proof -
    have "map length (take p ?xss) = take p (map length ?xss)"
      by (rule take_map[symmetric])
    also have "\<dots> = take p (replicate P ?L')" unfolding lens ..
    also have "\<dots> = replicate p ?L'" using p by (simp add: min_def)
    finally show ?thesis by (simp add: sum_list_replicate)
  qed
  have xp: "?xss ! p = ?copy p" using p by simp
  have "take (length (?xss ! p)) (drop (sum_list (map length (take p ?xss))) (concat ?xss)) = ?xss ! p"
    by (rule concat_slice) (use p in simp)
  then have slice: "take ?L' (drop (p * ?L') g') = ?copy p"
    unfolding pre xp g' using copylen[OF p] by simp
  let ?b = "sum_list (take c ?nl')"
  let ?m = "?nl' ! c"
  have c': "c < length ?nl'" using c by simp
  have bm: "?b + ?m \<le> ?L'"
    using sum_take_Suc[OF c'] sum_take_le[of "Suc c" ?nl'] by simp
  have "genoSlot ?nl' g' p c = take ?m (drop (p * ?L' + ?b) g')"
    unfolding genoSlot_def genoRange_def slotBegin_def ..
  also have "\<dots> = take ?m (drop (?b + p * ?L') g')"
    by (simp only: add.commute)
  also have "\<dots> = take ?m (drop ?b (drop (p * ?L') g'))"
    by (simp only: drop_drop)
  also have "\<dots> = take ?m (drop ?b (take ?L' (drop (p * ?L') g')))"
    by (rule take_drop_take[OF bm, symmetric])
  also have "\<dots> = take ?m (drop ?b (concat (?row p)))" unfolding slice ..
  also have "\<dots> = ?row p ! c"
  proof -
    have cr: "c < length (?row p)" using c by simp
    have "map length (?row p) ! c = length (?row p ! c)"
      using cr by (rule nth_map)
    then have m: "?m = length (?row p ! c)"
      unfolding rowlen[OF p] by simp
    have "map length (take c (?row p)) = take c (map length (?row p))"
      by (rule take_map[symmetric])
    then have b: "?b = sum_list (map length (take c (?row p)))"
      unfolding rowlen[OF p] by simp
    show ?thesis unfolding m b by (rule concat_slice[OF cr])
  qed
  also have "\<dots> = genoSlot nl g p c @ (if c = ch then replicate n 0 else [])"
    using c by simp
  finally show "genoSlot ?nl' g' p c = genoSlot nl g p c @ (if c = ch then replicate n 0 else [])" .
qed

lemma place_scan_first_empty:
  assumes nm: "\<forall>x\<in>set geno. x \<noteq> 0 \<longrightarrow> x \<noteq> mutLoc" and z: "0 \<in> set geno"
    and mx: "mutLoc < ModuleMaxAllele env"
  shows "place_scan env mutLoc geno 0 = Inr (geno[find_pos geno 0 := ToAllele env mutLoc], Some 0)"
proof -
  let ?j = "find_pos geno 0"
  note fp = find_pos_props[OF z]
  have pre: "\<forall>i<?j. geno ! i \<noteq> 0 \<and> geno ! i \<noteq> mutLoc"
  proof (intro allI impI)
    fix i assume i: "i < ?j"
    then have m: "geno ! i \<in> set geno" using fp by simp
    have "geno ! i \<noteq> 0" using fp i by blast
    then show "geno ! i \<noteq> 0 \<and> geno ! i \<noteq> mutLoc" using nm m by blast
  qed
  have "place_scan env mutLoc geno 0 = place_scan env mutLoc geno ?j"
    by (rule place_scan_skip[OF pre]) (use fp in simp_all)
  also have "\<dots> = Inr (geno[?j := ToAllele env mutLoc], Some 0)"
    using fp mx place_scan.simps[of env mutLoc geno ?j] by simp
  finally show ?thesis .
qed

lemma geno_in_alleles:
  "i < length (pop_genos pop) \<Longrightarrow> set (pop_genos pop ! i) \<subseteq> set (pop_alleles pop)"
  by (auto simp: pop_alleles_def) (metis nth_mem)

lemma wf_pop_nth:
  "wf_pop pop \<Longrightarrow> i < popSize pop \<Longrightarrow> length (pop_genos pop ! i) = pop_ploidy pop * sum_list (pop_numLoci pop)"
  by (simp add: wf_pop_def list_all_length popSize_def totNumLoci_def)

lemma grown_population:
  assumes wf: "wf_pop pop" and i: "i < popSize pop" and p: "p < pop_ploidy pop"
    and ch: "ch < length (pop_numLoci pop)"
  defines "slot \<equiv> genoSlot (pop_numLoci pop) (pop_genos pop ! i) p ch"
  defines "pop1 \<equiv> (if slot ! (pop_numLoci pop ! ch - 1) \<noteq> 0 then addLoci pop ch 10 else pop)"
  shows "genoSlot (pop_numLoci pop1) (pop_genos pop1 ! i) p ch
           = (if slot ! (pop_numLoci pop ! ch - 1) \<noteq> 0 then slot @ replicate 10 0 else slot)"
    and "length (pop_genos pop1 ! i) = pop_ploidy pop * sum_list (pop_numLoci pop1)"
    and "length (pop_genos pop1) = length (pop_genos pop)"
    and "pop_numLoci pop1 = (if slot ! (pop_numLoci pop ! ch - 1) \<noteq> 0
                             then (pop_numLoci pop)[ch := pop_numLoci pop ! ch + 10]
                             else pop_numLoci pop)"
    and "pop_gen pop1 = pop_gen pop"
proof -
  let ?nl = "pop_numLoci pop" and ?g = "pop_genos pop ! i"
  have len: "length ?g = pop_ploidy pop * sum_list ?nl" using wf_pop_nth[OF wf i] .
  have il: "i < length (pop_genos pop)" using i by (simp add: popSize_def)
  have gi: "pop_genos (addLoci pop ch 10) ! i
      = concat (map (\<lambda>p. concat (map (\<lambda>c. genoSlot ?nl ?g p c
                        @ (if c = ch then replicate 10 0 else [])) [0..<length ?nl])) [0..<pop_ploidy pop])"
    using il by (simp add: addLoci_def)
  have nl: "pop_numLoci (addLoci pop ch 10) = ?nl[ch := ?nl ! ch + 10]"
    by (simp add: addLoci_def)
  note al = addLoci_slot[OF p ch ch len, of 10]
  show "genoSlot (pop_numLoci pop1) (pop_genos pop1 ! i) p ch
           = (if slot ! (pop_numLoci pop ! ch - 1) \<noteq> 0 then slot @ replicate 10 0 else slot)"
    using al(1) by (simp add: pop1_def slot_def gi nl)
  show "length (pop_genos pop1 ! i) = pop_ploidy pop * sum_list (pop_numLoci pop1)"
    using al(2) len by (simp add: pop1_def gi nl)
  show "length (pop_genos pop1) = length (pop_genos pop)"
    by (simp add: pop1_def addLoci_def)
  show "pop_numLoci pop1 = (if slot ! (pop_numLoci pop ! ch - 1) \<noteq> 0
                             then (pop_numLoci pop)[ch := pop_numLoci pop ! ch + 10]
                             else pop_numLoci pop)"
    by (simp add: pop1_def nl)
  show "pop_gen pop1 = pop_gen pop" by (simp add: pop1_def addLoci_def)
qed

lemma place_mutation_new:
  assumes wf: "wf_pop (mut_pop st)" and i: "i < popSize (mut_pop st)" and p: "p < pop_ploidy (mut_pop st)"
    and ch: "ch < length (pop_numLoci (mut_pop st))" and pos: "0 < pop_numLoci (mut_pop st) ! ch"
    and absent: "mutLoc \<notin> set (pop_alleles (mut_pop st))"
    and mx: "mutLoc < ModuleMaxAllele env"
  defines "slot \<equiv> genoSlot (pop_numLoci (mut_pop st)) (pop_genos (mut_pop st) ! i) p ch"
  defines "slot1 \<equiv> (if slot ! (pop_numLoci (mut_pop st) ! ch - 1) \<noteq> 0 then slot @ replicate 10 0 else slot)"
  shows "\<exists>st'. place_mutation env i p ch mutLoc st = Inr st'
      \<and> genoSlot (pop_numLoci (mut_pop st')) (pop_genos (mut_pop st') ! i) p ch
          = slot1[find_pos slot1 0 := ToAllele env mutLoc]
      \<and> mut_out st' = (if mut_noOutput env then mut_out st
                        else mut_out st @ [(pop_gen (mut_pop st), mutLoc, i, 0)])"
proof -
  let ?pop = "mut_pop st"
  let ?nl = "pop_numLoci ?pop"
  let ?grow = "slot ! (?nl ! ch - 1) \<noteq> 0"
  let ?pop1 = "(if genoSlot ?nl (pop_genos ?pop ! i) p ch ! (?nl ! ch - 1) \<noteq> 0
                then addLoci ?pop ch 10 else ?pop)"
  let ?nl1 = "pop_numLoci ?pop1"
  let ?g1 = "pop_genos ?pop1 ! i"
  note gp = grown_population[OF wf i p ch]
  have s1: "genoSlot ?nl1 ?g1 p ch = slot1" using gp(1) by (simp add: slot1_def slot_def)
  have len1: "length ?g1 = pop_ploidy ?pop * sum_list ?nl1" using gp(2) .
  have ch1: "ch < length ?nl1" using ch gp(4) by simp
  have sl: "length slot = ?nl ! ch"
    unfolding slot_def using slot_length[OF p ch wf_pop_nth[OF wf i]] .
  have l1: "length slot1 = ?nl1 ! ch" using slot_length[OF p ch1 len1] s1 by simp
  have sub: "set slot \<subseteq> set (pop_alleles ?pop)"
    using slot_subset[of ?nl "pop_genos ?pop ! i" p ch] geno_in_alleles[of i ?pop] i
    by (auto simp: slot_def popSize_def)
  have nm: "\<forall>x\<in>set slot1. x \<noteq> 0 \<longrightarrow> x \<noteq> mutLoc"
    using sub absent by (auto simp: slot1_def split: if_splits)
  have z: "0 \<in> set slot1"
  proof (cases ?grow)
    case True
    then show ?thesis by (simp add: slot1_def)
  next
    case False
    have "?nl ! ch - 1 < length slot" using pos sl by simp
    then have "slot ! (?nl ! ch - 1) \<in> set slot" by (rule nth_mem)
    then show ?thesis using False by (simp add: slot1_def)
  qed
  have ps: "place_scan env mutLoc slot1 0 = Inr (slot1[find_pos slot1 0 := ToAllele env mutLoc], Some 0)"
    using place_scan_first_empty[OF nm z mx] .
  let ?geno2 = "slot1[find_pos slot1 0 := ToAllele env mutLoc]"
  let ?w = "genoWrite ?g1 (slotBegin ?nl1 p ch) ?geno2"
  let ?st1 = "st\<lparr>mut_pop := ?pop1\<lparr>pop_genos := (pop_genos ?pop1)[i := ?w]\<rparr>\<rparr>"
  have pm: "place_mutation env i p ch mutLoc st
      = Inr (mut_log env (pop_gen ?pop, mutLoc, i, 0) ?st1)"
    unfolding place_mutation_def Let_def s1 ps by simp
  have l2: "length ?geno2 = ?nl1 ! ch" using l1 by simp
  have rng: "slotBegin ?nl1 p ch + ?nl1 ! ch \<le> length ?g1"
    using slot_in_range[OF p ch1 len1] .
  have il: "i < length (pop_genos ?pop1)" using gp(3) i by (simp add: popSize_def)
  have rd: "genoSlot ?nl1 ?w p ch = ?geno2" using slot_read_write(1)[OF l2 rng] .
  have "genoSlot (pop_numLoci (mut_pop (mut_log env (pop_gen ?pop, mutLoc, i, 0) ?st1)))
          (pop_genos (mut_pop (mut_log env (pop_gen ?pop, mutLoc, i, 0) ?st1)) ! i) p ch = ?geno2"
    using rd il by simp
  moreover have "mut_out (mut_log env (pop_gen ?pop, mutLoc, i, 0) ?st1)
      = (if mut_noOutput env then mut_out st else mut_out st @ [(pop_gen ?pop, mutLoc, i, 0)])"
    by simp
  ultimately show ?thesis using pm by blast
qed

lemma set_insert_set: "set (set_insert x s) = insert x (set s)"
  by (auto simp: set_insert_def set_insort_key)

lemma relocated_placement:
  assumes model: "m_model env = 2" and ns: "\<not> saturated st" and reg: "mutLoc \<in> set (m_mutants st)"
    and a: "ToAllele env mutLoc \<in> set (pop_alleles (mut_pop st))"
    and l: "locateVacantLocus env (fst (m_ranges env ! ch)) (snd (m_ranges env ! ch)) st = (newLoc, st2)"
    and nz: "newLoc \<noteq> 0" and vac: "newLoc \<notin> set (pop_alleles (mut_pop st))"
    and mx: "newLoc < ModuleMaxAllele env"
    and wf: "wf_pop (mut_pop st)" "i < popSize (mut_pop st)" "p < pop_ploidy (mut_pop st)"
      "ch < length (pop_numLoci (mut_pop st))" "0 < pop_numLoci (mut_pop st) ! ch"
  shows "\<exists>st1. mutate_at env i p ch mutLoc st = Inr st1
           \<and> genoSlot (pop_numLoci (mut_pop st1)) (pop_genos (mut_pop st1) ! i) p ch
               = (let slot = genoSlot (pop_numLoci (mut_pop st)) (pop_genos (mut_pop st) ! i) p ch;
                      slot1 = (if slot ! (pop_numLoci (mut_pop st) ! ch - 1) \<noteq> 0
                               then slot @ replicate 10 0 else slot)
                  in slot1[find_pos slot1 0 := ToAllele env newLoc])
           \<and> mut_out st1 = (if mut_noOutput env then mut_out st
                             else mut_out st @ [(pop_gen (mut_pop st), mutLoc, i, 2),
                                                (pop_gen (mut_pop st), newLoc, i, 0)])
           \<and> m_mutants st1 = set_insert newLoc (m_mutants st2)
           \<and> mut_draws st1 = mut_draws st + 1 \<and> \<not> saturated st1"
proof -
  note f = locateVacantLocus_fields[OF l]
  let ?st2 = "mut_log env (pop_gen (mut_pop st), mutLoc, i, 2) st2"
  let ?st3 = "?st2\<lparr>m_mutants := set_insert newLoc (m_mutants ?st2)\<rparr>"
  have eq: "mutate_at env i p ch mutLoc st = place_mutation env i p ch newLoc ?st3"
    using a model ns reg l nz by (simp add: mutate_at_def)
  have pop3: "mut_pop ?st3 = mut_pop st" using f by simp
  have wf3: "wf_pop (mut_pop ?st3)" "i < popSize (mut_pop ?st3)" "p < pop_ploidy (mut_pop ?st3)"
    "ch < length (pop_numLoci (mut_pop ?st3))" "0 < pop_numLoci (mut_pop ?st3) ! ch"
    "newLoc \<notin> set (pop_alleles (mut_pop ?st3))"
    unfolding pop3 using wf vac by simp_all
  from place_mutation_new[OF wf3 mx] obtain st1 where
    pm: "place_mutation env i p ch newLoc ?st3 = Inr st1"
    and sl: "genoSlot (pop_numLoci (mut_pop st1)) (pop_genos (mut_pop st1) ! i) p ch
          = (let slot = genoSlot (pop_numLoci (mut_pop st)) (pop_genos (mut_pop st) ! i) p ch;
                 slot1 = (if slot ! (pop_numLoci (mut_pop st) ! ch - 1) \<noteq> 0
                          then slot @ replicate 10 0 else slot)
             in slot1[find_pos slot1 0 := ToAllele env newLoc])"
    and out: "mut_out st1 = (if mut_noOutput env then mut_out ?st3
                        else mut_out ?st3 @ [(pop_gen (mut_pop ?st3), newLoc, i, 0)])"
    unfolding pop3 Let_def by blast
  note g = place_mutation_fields(1-3)[OF pm]
  have o: "mut_out st1 = (if mut_noOutput env then mut_out st
                             else mut_out st @ [(pop_gen (mut_pop st), mutLoc, i, 2),
                                                (pop_gen (mut_pop st), newLoc, i, 0)])"
    using out f by simp
  have m: "m_mutants st1 = set_insert newLoc (m_mutants st2)" using g(1) by simp
  have d: "mut_draws st1 = mut_draws st + 1" using g(3) f by simp
  have s: "\<not> saturated st1" using g(2) f ns by simp
  show ?thesis using eq pm sl o m d s by simp
qed

text \<open>
  Claim C9. In infinite-site mode, in a state that is not saturated, for a position
  \<open>mutLoc\<close> found in the registry:
  \<^item> when the scan of all genotypes of the population does not find \<open>ToAllele(mutLoc)\<close>
    (and the population is well formed, the slot exists and \<open>mutLoc\<close> is representable),
    the attempt succeeds and the slot of individual \<open>i\<close>, copy \<open>p\<close>, region \<open>ch\<close> ends
    as the former slot, grown by ten empty entries if its last entry was taken, with
    \<open>mutLoc\<close> itself in its first empty entry; the only line written is the new-mutation
    line (event code 0) for \<open>mutLoc\<close>, the registry is as it was and no draw was made, so
    no other location was searched;
  \<^item> when the scan finds it, \<open>locateVacantLocus\<close> is run (one draw) and the first line
    written is the relocation line for \<open>mutLoc\<close>, with event code 2 and the new location
    entered in the registry, or with event code 3 and the state saturated;
  \<^item> when the scan finds it and \<open>locateVacantLocus\<close> returns a location \<open>newLoc\<close> that
    no genotype holds, the slot ends with \<open>ToAllele(newLoc)\<close> in its first empty entry, and
    the lines written are the relocation line for \<open>mutLoc\<close> and the new-mutation line for
    \<open>newLoc\<close>;
  \<^item> an attempt that made a draw had its position found by the scan.
\<close>

theorem C9_registry_recheck:
  assumes model: "m_model env = 2" and ns: "\<not> saturated st" and reg: "mutLoc \<in> set (m_mutants st)"
  shows "(ToAllele env mutLoc \<notin> set (pop_alleles (mut_pop st))
            \<and> wf_pop (mut_pop st) \<and> i < popSize (mut_pop st) \<and> p < pop_ploidy (mut_pop st)
            \<and> ch < length (pop_numLoci (mut_pop st)) \<and> 0 < pop_numLoci (mut_pop st) ! ch
            \<and> ToAllele env mutLoc = mutLoc \<and> mutLoc < ModuleMaxAllele env
          \<longrightarrow> (\<exists>st1. mutate_at env i p ch mutLoc st = Inr st1
                \<and> genoSlot (pop_numLoci (mut_pop st1)) (pop_genos (mut_pop st1) ! i) p ch
                    = (let slot = genoSlot (pop_numLoci (mut_pop st)) (pop_genos (mut_pop st) ! i) p ch;
                           slot1 = (if slot ! (pop_numLoci (mut_pop st) ! ch - 1) \<noteq> 0
                                    then slot @ replicate 10 0 else slot)
                       in slot1[find_pos slot1 0 := mutLoc])
                \<and> mut_out st1 = (if mut_noOutput env then mut_out st
                                  else mut_out st @ [(pop_gen (mut_pop st), mutLoc, i, 0)])
                \<and> m_mutants st1 = m_mutants st \<and> mut_draws st1 = mut_draws st
                \<and> \<not> saturated st1))
       \<and> (ToAllele env mutLoc \<in> set (pop_alleles (mut_pop st))
            \<and> mutate_at env i p ch mutLoc st = Inr st'
          \<longrightarrow> (\<exists>newLoc st1.
                  locateVacantLocus env (fst (m_ranges env ! ch)) (snd (m_ranges env ! ch)) st
                    = (newLoc, st1)
                \<and> mut_draws st' = mut_draws st + 1
                \<and> (if mut_noOutput env then mut_out st' = mut_out st
                    else take (Suc (length (mut_out st))) (mut_out st')
                           = mut_out st @ [(pop_gen (mut_pop st), mutLoc, i, (if newLoc = 0 then 3 else 2))])
                \<and> (if newLoc = 0 then saturated st' \<and> mut_pop st' = mut_pop st
                    else newLoc \<in> set (m_mutants st') \<and> \<not> saturated st')))
       \<and> (ToAllele env mutLoc \<in> set (pop_alleles (mut_pop st))
            \<and> locateVacantLocus env (fst (m_ranges env ! ch)) (snd (m_ranges env ! ch)) st
                  = (newLoc, st2)
            \<and> newLoc \<noteq> 0 \<and> newLoc \<notin> set (pop_alleles (mut_pop st))
            \<and> newLoc < ModuleMaxAllele env
            \<and> wf_pop (mut_pop st) \<and> i < popSize (mut_pop st) \<and> p < pop_ploidy (mut_pop st)
            \<and> ch < length (pop_numLoci (mut_pop st)) \<and> 0 < pop_numLoci (mut_pop st) ! ch
          \<longrightarrow> (\<exists>st1. mutate_at env i p ch mutLoc st = Inr st1
                \<and> genoSlot (pop_numLoci (mut_pop st1)) (pop_genos (mut_pop st1) ! i) p ch
                    = (let slot = genoSlot (pop_numLoci (mut_pop st)) (pop_genos (mut_pop st) ! i) p ch;
                           slot1 = (if slot ! (pop_numLoci (mut_pop st) ! ch - 1) \<noteq> 0
                                    then slot @ replicate 10 0 else slot)
                       in slot1[find_pos slot1 0 := ToAllele env newLoc])
                \<and> mut_out st1 = (if mut_noOutput env then mut_out st
                                  else mut_out st @ [(pop_gen (mut_pop st), mutLoc, i, 2),
                                                     (pop_gen (mut_pop st), newLoc, i, 0)])
                \<and> m_mutants st1 = set_insert newLoc (m_mutants st2)
                \<and> mut_draws st1 = mut_draws st + 1 \<and> \<not> saturated st1))
       \<and> (mutate_at env i p ch mutLoc st = Inr st' \<and> mut_draws st' \<noteq> mut_draws st
          \<longrightarrow> ToAllele env mutLoc \<in> set (pop_alleles (mut_pop st)))"
proof -
  have same: "st\<lparr>m_mutants := set_insert mutLoc (m_mutants st)\<rparr> = st"
    using set_insert_member[OF reg] by simp
  have eq: "mutate_at env i p ch mutLoc st = place_mutation env i p ch mutLoc st"
    if "ToAllele env mutLoc \<notin> set (pop_alleles (mut_pop st))"
    using that model ns same by (simp add: mutate_at_def)
  have partA: "\<exists>st1. mutate_at env i p ch mutLoc st = Inr st1
                \<and> genoSlot (pop_numLoci (mut_pop st1)) (pop_genos (mut_pop st1) ! i) p ch
                    = (let slot = genoSlot (pop_numLoci (mut_pop st)) (pop_genos (mut_pop st) ! i) p ch;
                           slot1 = (if slot ! (pop_numLoci (mut_pop st) ! ch - 1) \<noteq> 0
                                    then slot @ replicate 10 0 else slot)
                       in slot1[find_pos slot1 0 := mutLoc])
                \<and> mut_out st1 = (if mut_noOutput env then mut_out st
                                  else mut_out st @ [(pop_gen (mut_pop st), mutLoc, i, 0)])
                \<and> m_mutants st1 = m_mutants st \<and> mut_draws st1 = mut_draws st
                \<and> \<not> saturated st1"
    if a: "ToAllele env mutLoc \<notin> set (pop_alleles (mut_pop st))"
      and wf: "wf_pop (mut_pop st)" "i < popSize (mut_pop st)" "p < pop_ploidy (mut_pop st)"
        "ch < length (pop_numLoci (mut_pop st))" "0 < pop_numLoci (mut_pop st) ! ch"
      and rep: "ToAllele env mutLoc = mutLoc" and mx: "mutLoc < ModuleMaxAllele env"
  proof -
    have absent: "mutLoc \<notin> set (pop_alleles (mut_pop st))" using a rep by simp
    from place_mutation_new[OF wf absent mx] obtain st1 where
      pm: "place_mutation env i p ch mutLoc st = Inr st1"
      and sl: "genoSlot (pop_numLoci (mut_pop st1)) (pop_genos (mut_pop st1) ! i) p ch
          = (let slot = genoSlot (pop_numLoci (mut_pop st)) (pop_genos (mut_pop st) ! i) p ch;
                 slot1 = (if slot ! (pop_numLoci (mut_pop st) ! ch - 1) \<noteq> 0
                          then slot @ replicate 10 0 else slot)
             in slot1[find_pos slot1 0 := mutLoc])"
      and out: "mut_out st1 = (if mut_noOutput env then mut_out st
                        else mut_out st @ [(pop_gen (mut_pop st), mutLoc, i, 0)])"
      unfolding rep Let_def by blast
    note f = place_mutation_fields(1-3)[OF pm]
    show ?thesis using eq[OF a] pm sl out f ns by simp
  qed
  have partB: "\<exists>newLoc st1.
                  locateVacantLocus env (fst (m_ranges env ! ch)) (snd (m_ranges env ! ch)) st
                    = (newLoc, st1)
                \<and> mut_draws st' = mut_draws st + 1
                \<and> (if mut_noOutput env then mut_out st' = mut_out st
                    else take (Suc (length (mut_out st))) (mut_out st')
                           = mut_out st @ [(pop_gen (mut_pop st), mutLoc, i, (if newLoc = 0 then 3 else 2))])
                \<and> (if newLoc = 0 then saturated st' \<and> mut_pop st' = mut_pop st
                    else newLoc \<in> set (m_mutants st') \<and> \<not> saturated st')"
    if a: "ToAllele env mutLoc \<in> set (pop_alleles (mut_pop st))"
      and b: "mutate_at env i p ch mutLoc st = Inr st'"
  proof -
    obtain newLoc st1 where l:
      "locateVacantLocus env (fst (m_ranges env ! ch)) (snd (m_ranges env ! ch)) st = (newLoc, st1)"
      by (cases "locateVacantLocus env (fst (m_ranges env ! ch)) (snd (m_ranges env ! ch)) st")
    note f = locateVacantLocus_fields[OF l]
    show ?thesis
    proof (cases "newLoc = 0")
      case True
      then have "st' = (mut_log env (pop_gen (mut_pop st), mutLoc, i, 3) st1)\<lparr>saturated := True\<rparr>"
        using b a model ns reg l by (simp add: mutate_at_def)
      then show ?thesis using f l True by (intro exI[of _ newLoc] exI[of _ st1]) simp
    next
      case False
      let ?st2 = "mut_log env (pop_gen (mut_pop st), mutLoc, i, 2) st1"
      let ?st3 = "?st2\<lparr>m_mutants := set_insert newLoc (m_mutants ?st2)\<rparr>"
      have pm: "place_mutation env i p ch newLoc ?st3 = Inr st'"
        using b a model ns reg l False by (simp add: mutate_at_def)
      note g = place_mutation_fields[OF pm]
      have d: "mut_draws st' = mut_draws st + 1" using g(3) f by simp
      have m: "newLoc \<in> set (m_mutants st')" using g(1) by (simp add: set_insert_set)
      have s: "\<not> saturated st'" using g(2) f ns by simp
      have o: "(if mut_noOutput env then mut_out st' = mut_out st
                else take (Suc (length (mut_out st))) (mut_out st')
                       = mut_out st @ [(pop_gen (mut_pop st), mutLoc, i, 2)])"
      proof (cases "mut_noOutput env")
        case True
        then have "mut_out ?st3 = mut_out st" using f by simp
        moreover have "mut_out st' = mut_out ?st3"
          using pm True
          by (auto simp: place_mutation_def Let_def mut_log_def split: sum.splits option.splits)
        ultimately show ?thesis using True by simp
      next
        case no: False
        then have o3: "mut_out ?st3 = mut_out st @ [(pop_gen (mut_pop st), mutLoc, i, 2)]"
          using f by simp
        from g(4) show ?thesis unfolding o3 using no by (elim disjE) simp_all
      qed
      show ?thesis using l d m s o False by (intro exI[of _ newLoc] exI[of _ st1]) simp
    qed
  qed
  have partC: "ToAllele env mutLoc \<in> set (pop_alleles (mut_pop st))"
    if b: "mutate_at env i p ch mutLoc st = Inr st'" and d: "mut_draws st' \<noteq> mut_draws st"
  proof (rule ccontr)
    assume a: "ToAllele env mutLoc \<notin> set (pop_alleles (mut_pop st))"
    have "place_mutation env i p ch mutLoc st = Inr st'" using eq[OF a] b by simp
    from place_mutation_fields(3)[OF this] d show False by simp
  qed
  note partD = relocated_placement[OF model ns reg]
  show ?thesis using partA partB partC partD by blast
qed

lemma reloc_locate:
  "locateVacantLocus reloc_env (fst (m_ranges reloc_env ! 0)) (snd (m_ranges reloc_env ! 0))
      (sat_st False [] 1) = (13, sat_st False [] 2)"
  by (simp add: locateVacantLocus_def reloc_env_def sat_st_def sat_pop_def Let_def
      forward_scan.simps backward_scan.simps ulong_dec_def rebuild_mutants_def pop_alleles_def
      set_insert_def)

lemma reloc_slot:
  "genoSlot (pop_numLoci (mut_pop (sat_st False [] 1))) (pop_genos (mut_pop (sat_st False [] 1)) ! 0) 0 0
     = [11, 0]"
  "genoSlot [2] ([[11, 13, 0, 0]] ! 0) 0 0 = [11, 13]"
  "13 \<notin> set (pop_alleles (mut_pop (sat_st False [] 1)))" "13 < ModuleMaxAllele reloc_env"
  "wf_pop (mut_pop (sat_st False [] 1))" "0 < popSize (mut_pop (sat_st False [] 1))"
  "0 < pop_ploidy (mut_pop (sat_st False [] 1))"
  "0 < length (pop_numLoci (mut_pop (sat_st False [] 1)))"
  "0 < pop_numLoci (mut_pop (sat_st False [] 1)) ! 0"
  by (simp_all add: sat_st_def sat_pop_def reloc_env_def genoSlot_def genoRange_def slotBegin_def
      pop_alleles_def wf_pop_def totNumLoci_def popSize_def)

lemma mixed_eval:
  "mutate_at sat_env 1 1 0 11 mixed_st
     = Inr (mixed_st\<lparr>mut_pop := mixed_pop\<lparr>pop_genos := [[4, 0, 7, 0], [9, 0, 11, 0]]\<rparr>,
                     mut_out := [(7, 11, 1, 0)]\<rparr>)"
  by (simp add: mutate_at_def place_mutation_def sat_env_def mixed_st_def mixed_pop_def pop_alleles_def
      set_insert_def genoSlot_def genoRange_def slotBegin_def genoWrite_def Let_def
      place_scan.simps mut_log_def)

lemma full_eval:
  "mutate_at sat_env 0 0 0 11 full_st
     = Inr (full_st\<lparr>mut_pop := full_pop\<lparr>pop_numLoci := [12],
                        pop_genos := [[4, 5, 11, 0, 0, 0, 0, 0, 0, 0, 0, 0,
                                       7, 0, 0, 0, 0, 0, 0, 0, 0, 0, 0, 0]]\<rparr>,
                    mut_out := [(7, 11, 0, 0)]\<rparr>)"
  by (simp add: mutate_at_def place_mutation_def sat_env_def full_st_def full_pop_def pop_alleles_def
      set_insert_def genoSlot_def genoRange_def slotBegin_def genoWrite_def Let_def addLoci_def
      place_scan.simps mut_log_def upt_rec numeral_eq_Suc)

lemma reloc_eval:
  "mutate_at reloc_env 0 0 0 11 (sat_st False [] 1)
     = Inr \<lparr>mut_pop = sat_pop\<lparr>pop_genos := [[11, 13, 0, 0]]\<rparr>, m_mutants = [11, 13],
            saturated = False, mut_out = [(7, 11, 0, 2), (7, 13, 0, 0)], mut_draws = 2\<rparr>"
  by (simp add: mutate_at_def place_mutation_def reloc_env_def sat_st_def sat_pop_def pop_alleles_def
      set_insert_def genoSlot_def genoRange_def slotBegin_def genoWrite_def Let_def
      locateVacantLocus_def place_scan.simps mut_log_def)

lemma mixed_hyps:
  "\<not> saturated mixed_st" "11 \<in> set (m_mutants mixed_st)"
  "ToAllele sat_env 11 \<notin> set (pop_alleles (mut_pop mixed_st))"
  "wf_pop (mut_pop mixed_st)" "1 < popSize (mut_pop mixed_st)" "1 < pop_ploidy (mut_pop mixed_st)"
  "0 < length (pop_numLoci (mut_pop mixed_st))" "0 < pop_numLoci (mut_pop mixed_st) ! 0"
  "ToAllele sat_env 11 = 11" "11 < ModuleMaxAllele sat_env"
  "7 \<in> set (pop_alleles (mut_pop mixed_st))"
  by (simp_all add: mixed_st_def mixed_pop_def sat_env_def pop_alleles_def wf_pop_def totNumLoci_def
      popSize_def)

lemma full_hyps:
  "\<not> saturated full_st" "11 \<in> set (m_mutants full_st)"
  "ToAllele sat_env 11 \<notin> set (pop_alleles (mut_pop full_st))"
  "wf_pop (mut_pop full_st)" "0 < popSize (mut_pop full_st)" "0 < pop_ploidy (mut_pop full_st)"
  "0 < length (pop_numLoci (mut_pop full_st))" "0 < pop_numLoci (mut_pop full_st) ! 0"
  by (simp_all add: full_st_def full_pop_def sat_env_def pop_alleles_def wf_pop_def totNumLoci_def
      popSize_def)

lemma reloc_hyps:
  "m_model reloc_env = 2" "\<not> saturated (sat_st False [] 1)" "11 \<in> set (m_mutants (sat_st False [] 1))"
  "ToAllele reloc_env 11 \<in> set (pop_alleles (mut_pop (sat_st False [] 1)))"
  by (simp_all add: reloc_env_def sat_st_def sat_pop_def pop_alleles_def)

lemma mixed_slot:
  "genoSlot (pop_numLoci (mut_pop mixed_st)) (pop_genos (mut_pop mixed_st) ! 1) 1 0 = [0, 0]"
  "genoSlot [2] ([[4, 0, 7, 0], [9, 0, 11, 0]] ! 1) 1 0 = [11, 0]"
  "genoSlot (pop_numLoci (mut_pop full_st)) (pop_genos (mut_pop full_st) ! 0) 0 0 = [4, 5]"
  "genoSlot [12] ([[4, 5, 11, 0, 0, 0, 0, 0, 0, 0, 0, 0, 7, 0, 0, 0, 0, 0, 0, 0, 0, 0, 0, 0]] ! 0) 0 0
     = [4, 5, 11, 0, 0, 0, 0, 0, 0, 0, 0, 0]"
  by (simp_all add: mixed_st_def mixed_pop_def full_st_def full_pop_def genoSlot_def genoRange_def
      slotBegin_def)

theorem C9_registry_recheck_witness:
  "m_model sat_env = 2 \<and> \<not> saturated mixed_st \<and> 11 \<in> set (m_mutants mixed_st)
   \<and> 7 \<in> set (pop_alleles (mut_pop mixed_st))
   \<and> ToAllele sat_env 11 \<notin> set (pop_alleles (mut_pop mixed_st))
   \<and> mutate_at sat_env 1 1 0 11 mixed_st
     = Inr (mixed_st\<lparr>mut_pop := mixed_pop\<lparr>pop_genos := [[4, 0, 7, 0], [9, 0, 11, 0]]\<rparr>,
                     mut_out := [(7, 11, 1, 0)]\<rparr>)
   \<and> genoSlot (pop_numLoci (mut_pop mixed_st)) (pop_genos (mut_pop mixed_st) ! 1) 1 0 = [0, 0]
   \<and> genoSlot [2] ([[4, 0, 7, 0], [9, 0, 11, 0]] ! 1) 1 0 = [11, 0]
   \<and> (\<exists>st1. mutate_at sat_env 1 1 0 11 mixed_st = Inr st1
         \<and> genoSlot (pop_numLoci (mut_pop st1)) (pop_genos (mut_pop st1) ! 1) 1 0
              = (let slot = genoSlot (pop_numLoci (mut_pop mixed_st)) (pop_genos (mut_pop mixed_st) ! 1) 1 0;
                     slot1 = (if slot ! (pop_numLoci (mut_pop mixed_st) ! 0 - 1) \<noteq> 0
                              then slot @ replicate 10 0 else slot)
                 in slot1[find_pos slot1 0 := 11])
         \<and> mut_out st1 = (if mut_noOutput sat_env then mut_out mixed_st
                           else mut_out mixed_st @ [(pop_gen (mut_pop mixed_st), 11, 1, 0)])
         \<and> m_mutants st1 = m_mutants mixed_st \<and> mut_draws st1 = mut_draws mixed_st
         \<and> \<not> saturated st1)
   \<and> mutate_at sat_env 0 0 0 11 full_st
     = Inr (full_st\<lparr>mut_pop := full_pop\<lparr>pop_numLoci := [12],
                        pop_genos := [[4, 5, 11, 0, 0, 0, 0, 0, 0, 0, 0, 0,
                                       7, 0, 0, 0, 0, 0, 0, 0, 0, 0, 0, 0]]\<rparr>,
                    mut_out := [(7, 11, 0, 0)]\<rparr>)
   \<and> (\<exists>st1. mutate_at sat_env 0 0 0 11 full_st = Inr st1
         \<and> genoSlot (pop_numLoci (mut_pop st1)) (pop_genos (mut_pop st1) ! 0) 0 0
              = (let slot = genoSlot (pop_numLoci (mut_pop full_st)) (pop_genos (mut_pop full_st) ! 0) 0 0;
                     slot1 = (if slot ! (pop_numLoci (mut_pop full_st) ! 0 - 1) \<noteq> 0
                              then slot @ replicate 10 0 else slot)
                 in slot1[find_pos slot1 0 := 11])
         \<and> mut_out st1 = (if mut_noOutput sat_env then mut_out full_st
                           else mut_out full_st @ [(pop_gen (mut_pop full_st), 11, 0, 0)])
         \<and> m_mutants st1 = m_mutants full_st \<and> mut_draws st1 = mut_draws full_st
         \<and> \<not> saturated st1)
   \<and> m_model reloc_env = 2 \<and> \<not> saturated (sat_st False [] 1)
   \<and> 11 \<in> set (m_mutants (sat_st False [] 1))
   \<and> ToAllele reloc_env 11 \<in> set (pop_alleles (mut_pop (sat_st False [] 1)))
   \<and> mutate_at reloc_env 0 0 0 11 (sat_st False [] 1)
     = Inr \<lparr>mut_pop = sat_pop\<lparr>pop_genos := [[11, 13, 0, 0]]\<rparr>, m_mutants = [11, 13],
            saturated = False, mut_out = [(7, 11, 0, 2), (7, 13, 0, 0)], mut_draws = 2\<rparr>
   \<and> (\<exists>newLoc st1.
          locateVacantLocus reloc_env (fst (m_ranges reloc_env ! 0)) (snd (m_ranges reloc_env ! 0))
              (sat_st False [] 1) = (newLoc, st1)
        \<and> mut_draws \<lparr>mut_pop = sat_pop\<lparr>pop_genos := [[11, 13, 0, 0]]\<rparr>, m_mutants = [11, 13],
            saturated = False, mut_out = [(7, 11, 0, 2), (7, 13, 0, 0)], mut_draws = 2\<rparr>
            = mut_draws (sat_st False [] 1) + 1
        \<and> (if mut_noOutput reloc_env
            then mut_out \<lparr>mut_pop = sat_pop\<lparr>pop_genos := [[11, 13, 0, 0]]\<rparr>, m_mutants = [11, 13],
                   saturated = False, mut_out = [(7, 11, 0, 2), (7, 13, 0, 0)], mut_draws = 2\<rparr>
                 = mut_out (sat_st False [] 1)
            else take (Suc (length (mut_out (sat_st False [] 1))))
                   (mut_out \<lparr>mut_pop = sat_pop\<lparr>pop_genos := [[11, 13, 0, 0]]\<rparr>, m_mutants = [11, 13],
                      saturated = False, mut_out = [(7, 11, 0, 2), (7, 13, 0, 0)], mut_draws = 2\<rparr>)
                 = mut_out (sat_st False [] 1)
                   @ [(pop_gen (mut_pop (sat_st False [] 1)), 11, 0, (if newLoc = 0 then 3 else 2))])
        \<and> (if newLoc = 0
            then saturated \<lparr>mut_pop = sat_pop\<lparr>pop_genos := [[11, 13, 0, 0]]\<rparr>, m_mutants = [11, 13],
                   saturated = False, mut_out = [(7, 11, 0, 2), (7, 13, 0, 0)], mut_draws = 2\<rparr>
                 \<and> mut_pop \<lparr>mut_pop = sat_pop\<lparr>pop_genos := [[11, 13, 0, 0]]\<rparr>, m_mutants = [11, 13],
                   saturated = False, mut_out = [(7, 11, 0, 2), (7, 13, 0, 0)], mut_draws = 2\<rparr>
                   = mut_pop (sat_st False [] 1)
            else newLoc \<in> set (m_mutants \<lparr>mut_pop = sat_pop\<lparr>pop_genos := [[11, 13, 0, 0]]\<rparr>,
                   m_mutants = [11, 13], saturated = False,
                   mut_out = [(7, 11, 0, 2), (7, 13, 0, 0)], mut_draws = 2\<rparr>)
                 \<and> \<not> saturated \<lparr>mut_pop = sat_pop\<lparr>pop_genos := [[11, 13, 0, 0]]\<rparr>,
                   m_mutants = [11, 13], saturated = False,
                   mut_out = [(7, 11, 0, 2), (7, 13, 0, 0)], mut_draws = 2\<rparr>))
   \<and> locateVacantLocus reloc_env (fst (m_ranges reloc_env ! 0)) (snd (m_ranges reloc_env ! 0))
        (sat_st False [] 1) = (13, sat_st False [] 2)
   \<and> 13 \<notin> set (pop_alleles (mut_pop (sat_st False [] 1)))
   \<and> genoSlot (pop_numLoci (mut_pop (sat_st False [] 1)))
        (pop_genos (mut_pop (sat_st False [] 1)) ! 0) 0 0 = [11, 0]
   \<and> genoSlot [2] ([[11, 13, 0, 0]] ! 0) 0 0 = [11, 13]
   \<and> (\<exists>st1. mutate_at reloc_env 0 0 0 11 (sat_st False [] 1) = Inr st1
         \<and> genoSlot (pop_numLoci (mut_pop st1)) (pop_genos (mut_pop st1) ! 0) 0 0
              = (let slot = genoSlot (pop_numLoci (mut_pop (sat_st False [] 1)))
                              (pop_genos (mut_pop (sat_st False [] 1)) ! 0) 0 0;
                     slot1 = (if slot ! (pop_numLoci (mut_pop (sat_st False [] 1)) ! 0 - 1) \<noteq> 0
                              then slot @ replicate 10 0 else slot)
                 in slot1[find_pos slot1 0 := ToAllele reloc_env 13])
         \<and> mut_out st1 = (if mut_noOutput reloc_env then mut_out (sat_st False [] 1)
                           else mut_out (sat_st False [] 1)
                                @ [(pop_gen (mut_pop (sat_st False [] 1)), 11, 0, 2),
                                   (pop_gen (mut_pop (sat_st False [] 1)), 13, 0, 0)])
         \<and> m_mutants st1 = set_insert 13 (m_mutants (sat_st False [] 2))
         \<and> mut_draws st1 = mut_draws (sat_st False [] 1) + 1 \<and> \<not> saturated st1)"
proof -
  note a = C9_registry_recheck[OF sat_model mixed_hyps(1,2), where i = 1 and p = 1 and ch = 0,
      THEN conjunct1, rule_format]
  note b = C9_registry_recheck[OF sat_model full_hyps(1,2), where i = 0 and p = 0 and ch = 0,
      THEN conjunct1, rule_format]
  note c = C9_registry_recheck[OF reloc_hyps(1,2,3), where i = 0 and p = 0 and ch = 0
      and st' = "\<lparr>mut_pop = sat_pop\<lparr>pop_genos := [[11, 13, 0, 0]]\<rparr>, m_mutants = [11, 13],
            saturated = False, mut_out = [(7, 11, 0, 2), (7, 13, 0, 0)], mut_draws = 2\<rparr>",
      THEN conjunct2, THEN conjunct1, rule_format]
  note d = C9_registry_recheck[OF reloc_hyps(1,2,3), where i = 0 and p = 0 and ch = 0
      and newLoc = 13 and ?st2.0 = "sat_st False [] 2",
      THEN conjunct2, THEN conjunct2, THEN conjunct1, rule_format]
  have f: "ToAllele sat_env 11 = 11" "11 < ModuleMaxAllele sat_env" using mixed_hyps(9,10) .
  have n: "(13::nat) \<noteq> 0" by simp
  note w1 = a[OF conjI[OF mixed_hyps(3) conjI[OF mixed_hyps(4) conjI[OF mixed_hyps(5)
      conjI[OF mixed_hyps(6) conjI[OF mixed_hyps(7) conjI[OF mixed_hyps(8) conjI[OF f]]]]]]]]
  note w2 = b[OF conjI[OF full_hyps(3) conjI[OF full_hyps(4) conjI[OF full_hyps(5)
      conjI[OF full_hyps(6) conjI[OF full_hyps(7) conjI[OF full_hyps(8) conjI[OF f]]]]]]]]
  note w3 = c[OF conjI[OF reloc_hyps(4) reloc_eval]]
  note w4 = d[OF conjI[OF reloc_hyps(4) conjI[OF reloc_locate conjI[OF n conjI[OF reloc_slot(3)
      conjI[OF reloc_slot(4) conjI[OF reloc_slot(5) conjI[OF reloc_slot(6) conjI[OF reloc_slot(7)
      conjI[OF reloc_slot(8) reloc_slot(9)]]]]]]]]]]
  show ?thesis
    using w1 w2 w3 w4 sat_model mixed_hyps(1,2,3,11) reloc_hyps mixed_eval full_eval reloc_eval
      mixed_slot(1,2) reloc_locate reloc_slot(1,2,3)
    by blast
qed


section \<open>Properties of InfSitesRecombinator\<close>

lemma upt_1: "[0..<length [2::nat]] = [0]"
  by simp

lemma upt_2: "[0..<length [2::nat, 1]] = [0, 1]"
  by (simp add: upt_rec)

text \<open>
  Claim C2, at a parent with one chromosome of two entries whose two copies both hold
  site 5, \<open>[5, 0]\<close> and \<open>[5, 0]\<close>. The count stops at the empty entry of copy 0, so
  site 5 is counted once and kept only by the coin: with every coin failing the offspring
  copy is \<open>[0, 0]\<close>, with every coin succeeding it is \<open>[5, 0]\<close>. With the full copies
  \<open>[5]\<close> and \<open>[5]\<close> the count reaches copy 1 and the site is kept without a coin. With
  two chromosomes, where each copy is counted by a loop of its own, the same site is kept
  although every coin fails.
\<close>

theorem C2_single_chromosome_loses_shared_site:
  "5 \<in> set (genoSlot [2] [5, 0, 5, 0] 0 0) \<and> 5 \<in> set (genoSlot [2] [5, 0, 5, 0] 1 0)
   \<and> transmitGenotype0 (\<lambda>n. False) [2] [5, 0, 5, 0] off_pop1 0 0 0
        = Some (off_pop1\<lparr>pop_genos := [[0, 0, 8, 8]]\<rparr>, 1)
   \<and> 5 \<notin> set (genoSlot [2] [0, 0, 8, 8] 0 0)
   \<and> transmitGenotype0 (\<lambda>n. True) [2] [5, 0, 5, 0] off_pop1 0 0 0
        = Some (off_pop1\<lparr>pop_genos := [[5, 0, 8, 8]]\<rparr>, 1)
   \<and> transmitGenotype0 (\<lambda>n. False) [1] [5, 5] off_pop1 0 0 0
        = Some (off_pop1\<lparr>pop_genos := [[5, 0, 8, 8]]\<rparr>, 0)
   \<and> transmitGenotype0 (\<lambda>n. False) [2, 1] [5, 0, 0, 5, 0, 0] off_pop2 0 0 0
        = Some (off_pop2\<lparr>pop_genos := [[5, 0, 0, 8, 8, 8]]\<rparr>, 0)"
  unfolding transmitGenotype0_def upt_1 upt_2
  by (simp add: transmit0_chrom_def Let_def off_pop1_def off_pop2_def genoSlot_def genoRange_def
      slotBegin_def genoWrite_def numeral_2_eq_2)


end
